theory Spec2Isabelle
  imports
    Main
    "HOL-Library.Sublist"
    "HOL-Library.Char_ord"
    "HOL-Library.List_Lexorder"
    "HOL-Library.Multiset"
    "HOL-Library.Word"
begin

unbundle bit_operations_syntax

section \<open>Path canonicalizer (file.go)\<close>

text \<open>
  Go strings are byte sequences; \<open>string\<close> is a list of 8-bit characters.
  \<open>strings.HasPrefix(s, pre)\<close> is \<open>prefix pre s\<close>, the slice \<open>s[n:]\<close> is \<open>drop n s\<close>.
\<close>

definition HasPrefix :: "string \<Rightarrow> string \<Rightarrow> bool" where
  "HasPrefix s pre = prefix pre s"

definition slash :: "string \<Rightarrow> string" where
  "slash p =
     (if HasPrefix p ''./'' then p
      else if HasPrefix p ''/'' then ''.'' @ p
      else ''./'' @ p)"

function unslash :: "string \<Rightarrow> string" where
  "unslash p =
     (if HasPrefix p ''./'' then unslash (drop 2 p)
      else if HasPrefix p ''/'' then unslash (drop 1 p)
      else p)"
  by pat_completeness auto
termination
  by (relation "measure length") (auto simp: HasPrefix_def prefix_def)

declare unslash.simps [simp del]

text \<open>
  A run of leading \<open>./\<close> and \<open>/\<close> tokens: the strings that are a concatenation of
  such tokens, read left to right.
\<close>

function slash_run :: "string \<Rightarrow> bool" where
  "slash_run p =
     (if p = [] then True
      else if HasPrefix p ''./'' then slash_run (drop 2 p)
      else if HasPrefix p ''/'' then slash_run (drop 1 p)
      else False)"
  by pat_completeness auto
termination
  by (relation "measure length") (auto simp: HasPrefix_def prefix_def)

declare slash_run.simps [simp del]

section \<open>Data model\<close>

text \<open>
  Go errors are values. The two sentinel errors the code compares against
  (\<open>os.ErrExist\<close>, \<open>ErrBadScriptName\<close>) are constructors of their own; every other
  error is its message, without the interpolated arguments.
\<close>

datatype error = ErrExist | ErrBadScriptName | Error string

text \<open>The fields of \<open>tar.Header\<close> that the package reads or writes.\<close>

datatype tar_format = tar_FormatUnknown | tar_FormatUSTAR | tar_FormatPAX | tar_FormatGNU

record Header =
  Name :: string
  Typeflag :: char
  Size :: int
  Mode :: int
  Linkname :: string
  Uname :: string
  Gname :: string
  ModTime :: int
  Format :: tar_format

definition TypeReg :: char where "TypeReg = CHR ''0''"
definition TypeRegA :: char where "TypeRegA = CHR 0x00"
definition TypeLink :: char where "TypeLink = CHR ''1''"
definition TypeSymlink :: char where "TypeSymlink = CHR ''2''"
definition TypeChar :: char where "TypeChar = CHR ''3''"
definition TypeBlock :: char where "TypeBlock = CHR ''4''"
definition TypeDir :: char where "TypeDir = CHR ''5''"
definition TypeFifo :: char where "TypeFifo = CHR ''6''"

text \<open>The zero value of \<open>tar.Header\<close>, as a Go composite literal leaves unnamed fields.\<close>

definition zeroHeader :: Header where
  "zeroHeader =
     \<lparr>Name = [], Typeflag = CHR 0x00, Size = 0, Mode = 0, Linkname = [],
      Uname = [], Gname = [], ModTime = 0, Format = tar_FormatUnknown\<rparr>"

text \<open>
  A byte stream is modelled by its decoded structure: plain bytes, a gzip member
  written at some compression level around an inner stream, or a tar archive as the
  sequence of its entries (header and content).
\<close>

datatype stream = Bytes string | Gzip int stream | Tar "(Header \<times> stream) list"

definition NoCompression :: int where "NoCompression = 0"
definition BestCompression :: int where "BestCompression = 9"

text \<open>\<open>gzip.NewReader\<close>: fails on a stream that is not a gzip member.\<close>

fun gunzip :: "stream \<Rightarrow> stream option" where
  "gunzip (Gzip l s) = Some s"
| "gunzip _ = None"

record file_t =
  header :: Header
  data :: "stream option"

record T =
  t_fields :: "string \<rightharpoonup> string"
  t_conffiles :: "string list"
  t_scripts :: "string \<rightharpoonup> file_t"
  t_files :: "string \<rightharpoonup> file_t"

definition New :: T where
  "New = \<lparr>t_fields = Map.empty, t_conffiles = [], t_scripts = Map.empty, t_files = Map.empty\<rparr>"

text \<open>
  What the code takes from its environment: the clock, the bytes that encode a
  compressed or archived stream, and the order in which each \<open>range\<close> over a map
  yields its entries (Go leaves that order unspecified, and it may differ from one
  loop to the next).
\<close>

record env =
  now :: int
  encode :: "stream \<Rightarrow> string"
  range_fields :: "(string \<times> string) list"
  range_scripts :: "(string \<times> file_t) list"
  range_files :: "(string \<times> file_t) list"

text \<open>\<open>kvs\<close> is one order in which \<open>range m\<close> may yield the entries of \<open>m\<close>.\<close>

definition is_range :: "('k \<rightharpoonup> 'v) \<Rightarrow> ('k \<times> 'v) list \<Rightarrow> bool" where
  "is_range m kvs \<longleftrightarrow> distinct (map fst kvs) \<and> map_of kvs = m"

text \<open>The bytes a reader of the stream delivers, and their number.\<close>

definition bytes_of :: "env \<Rightarrow> stream \<Rightarrow> string" where
  "bytes_of e s = (case s of Bytes b \<Rightarrow> b | _ \<Rightarrow> encode e s)"

definition stream_len :: "env \<Rightarrow> stream \<Rightarrow> int" where
  "stream_len e s = int (length (bytes_of e s))"

section \<open>The tar writer (archive/tar, as the package uses it)\<close>

text \<open>
  \<open>tw_pending\<close> is the number of bytes the current entry still expects. A header
  cannot be written, nor the archive closed, while bytes are missing; writing more than
  the header announced fails. Limits of the header encoding are not modelled.
\<close>

record tarw =
  tw_entries :: "(Header \<times> stream) list"
  tw_pending :: int

definition NewWriter :: tarw where
  "NewWriter = \<lparr>tw_entries = [], tw_pending = 0\<rparr>"

definition isHeaderOnlyType :: "char \<Rightarrow> bool" where
  "isHeaderOnlyType flag \<longleftrightarrow>
     flag \<in> {TypeLink, TypeSymlink, TypeChar, TypeBlock, TypeDir, TypeFifo}"

definition WriteHeader :: "tarw \<Rightarrow> Header \<Rightarrow> error + tarw" where
  "WriteHeader w h =
     (if tw_pending w \<noteq> 0 then Inl (Error ''archive/tar: missed writing bytes'')
      else if Size h < 0 then Inl (Error ''archive/tar: invalid tar header'')
      else Inr \<lparr>tw_entries = tw_entries w @ [(h, Bytes [])],
                tw_pending = (if isHeaderOnlyType (Typeflag h) then 0 else Size h)\<rparr>)"

text \<open>\<open>io.Copy(w, src)\<close> into the current entry, \<open>n\<close> being the length of \<open>src\<close>.\<close>

definition Copy :: "tarw \<Rightarrow> stream \<Rightarrow> int \<Rightarrow> error + tarw" where
  "Copy w src n =
     (if tw_pending w < n then Inl (Error ''archive/tar: write too long'')
      else (case rev (tw_entries w) of
              [] \<Rightarrow> Inr w
            | (h, c) # earlier \<Rightarrow>
                Inr \<lparr>tw_entries = rev earlier @ [(h, src)], tw_pending = tw_pending w - n\<rparr>))"

definition tw_Close :: "tarw \<Rightarrow> error + stream" where
  "tw_Close w =
     (if tw_pending w \<noteq> 0 then Inl (Error ''archive/tar: missed writing bytes'')
      else Inr (Tar (tw_entries w)))"


section \<open>Archive helpers (archive.go)\<close>

definition archiveOwner :: string where
  "archiveOwner = ''root''"

text \<open>The permission bits are octal in the source: 0644 is 420, 0755 is 493, 0111 is 73.\<close>

definition specialHeader :: "string \<Rightarrow> int \<Rightarrow> int \<Rightarrow> Header" where
  "specialHeader name sz modTime =
     (let result = zeroHeader\<lparr>Name := name, Uname := archiveOwner, Gname := archiveOwner,
                                ModTime := modTime, Format := tar_FormatUSTAR\<rparr>
      in if sz \<ge> 0
         then result\<lparr>Typeflag := TypeReg, Size := sz, Mode := 420\<rparr>
         else result\<lparr>Typeflag := TypeDir, Mode := 493\<rparr>)"

definition fileHeader :: "string \<Rightarrow> int \<Rightarrow> int \<Rightarrow> Header" where
  "fileHeader name sz modTime = specialHeader name sz modTime"

definition directoryHeader :: "string \<Rightarrow> int \<Rightarrow> Header" where
  "directoryHeader name modTime = specialHeader name (- 1) modTime"

definition compressionLevel :: "bool \<Rightarrow> int" where
  "compressionLevel compress = (if compress then BestCompression else NoCompression)"

text \<open>
  The temporary archive: a tar writer over a gzip writer over a temporary file. The
  file system is not modelled, so creating, rewinding and removing the file succeed.
\<close>

record archiveWriter =
  aw_Writer :: tarw
  aw_level :: int

definition newArchiveForFile :: "bool \<Rightarrow> archiveWriter" where
  "newArchiveForFile compress =
     \<lparr>aw_Writer = NewWriter, aw_level = compressionLevel compress\<rparr>"

definition newTempArchive :: "bool \<Rightarrow> archiveWriter" where
  "newTempArchive compress = newArchiveForFile compress"

text \<open>\<open>Finish\<close> returns the archive for reading along with its size.\<close>

definition Finish :: "env \<Rightarrow> archiveWriter \<Rightarrow> error + (stream \<times> int)" where
  "Finish e aw =
     (case tw_Close (aw_Writer aw) of
        Inl err \<Rightarrow> Inl (Error ''Error closing tar writer'')
      | Inr tar \<Rightarrow>
          (let archive = Gzip (aw_level aw) tar in Inr (archive, stream_len e archive)))"

text \<open>
  \<open>addArchiveEntry\<close> sets \<open>header.Name\<close> through the pointer before anything else; the
  caller's header is \<open>slashed_header\<close> afterwards.
\<close>

definition slashed_header :: "Header \<Rightarrow> Header" where
  "slashed_header h = h\<lparr>Name := slash (Name h)\<rparr>"

definition addArchiveEntry :: "env \<Rightarrow> tarw \<Rightarrow> Header \<Rightarrow> stream option \<Rightarrow> error + tarw" where
  "addArchiveEntry e w hdr gzdata =
     (let hdr' = slashed_header hdr in
      case WriteHeader w hdr' of
        Inl err \<Rightarrow> Inl (Error ''Unable to write tar header'')
      | Inr w1 \<Rightarrow>
          (case gzdata of
             None \<Rightarrow> Inr w1
           | Some buf \<Rightarrow>
               (case gunzip buf of
                  None \<Rightarrow> Inl (Error ''Unable to create gzip reader'')
                | Some gzr \<Rightarrow>
                    (case Copy w1 gzr (stream_len e gzr) of
                       Inl err \<Rightarrow> Inl (Error ''Unable to copy tar data'')
                     | Inr w2 \<Rightarrow> Inr w2))))"

section \<open>Writing the control archive (control.go)\<close>

definition ControlPackage :: string where "ControlPackage = ''Package''"
definition ControlVersion :: string where "ControlVersion = ''Version''"
definition ControlArch :: string where "ControlArch = ''Architecture''"
definition ControlDep :: string where "ControlDep = ''Depends''"
definition ControlMaintainer :: string where "ControlMaintainer = ''Maintainer''"
definition ControlDesc :: string where "ControlDesc = ''Description''"
definition ControlHomepage :: string where "ControlHomepage = ''Homepage''"

definition controlArchiveName :: string where "controlArchiveName = ''control.tar.gz''"
definition controlName :: string where "controlName = ''control''"
definition confName :: string where "confName = ''conffiles''"
definition dataArchiveName :: string where "dataArchiveName = ''data.tar.gz''"

definition mandatoryFields :: "string list" where
  "mandatoryFields =
     [ControlPackage, ControlVersion, ControlArch, ControlMaintainer, ControlDesc]"

text \<open>\<open>fmt.Sprintf("%s: %s\n", field, content)\<close>\<close>

definition control_line :: "string \<Rightarrow> string \<Rightarrow> string" where
  "control_line field content = field @ '': '' @ content @ [CHR 0x0A]"

text \<open>
  \<open>sort.Search(n, f)\<close>: binary search for the smallest index in \<open>[0, n]\<close> at which
  \<open>f\<close> holds, and \<open>sort.SearchStrings(a, x)\<close>, which searches for \<open>a[i] >= x\<close>.
\<close>

function search_loop :: "(nat \<Rightarrow> bool) \<Rightarrow> nat \<Rightarrow> nat \<Rightarrow> nat" where
  "search_loop f i j =
     (if i < j
      then (let h = (i + j) div 2
            in if \<not> f h then search_loop f (h + 1) j else search_loop f i h)
      else i)"
  by pat_completeness auto
termination
  by (relation "measure (\<lambda>(f, i, j). j - i)") auto

declare search_loop.simps [simp del]

definition Search :: "nat \<Rightarrow> (nat \<Rightarrow> bool) \<Rightarrow> nat" where
  "Search n f = search_loop f 0 n"

definition SearchStrings :: "string list \<Rightarrow> string \<Rightarrow> nat" where
  "SearchStrings a x = Search (length a) (\<lambda>i. a ! i \<ge> x)"

text \<open>The first loop of \<open>addControl\<close>: the mandatory fields, in their fixed order.\<close>

fun add_mandatory :: "(string \<rightharpoonup> string) \<Rightarrow> string list \<Rightarrow> string \<Rightarrow> error + string" where
  "add_mandatory fs [] buf = Inr buf"
| "add_mandatory fs (field # rest) buf =
     (case fs field of
        None \<Rightarrow> Inl (Error ''Mandatory control field missing'')
      | Some content \<Rightarrow> add_mandatory fs rest (buf @ control_line field content))"

text \<open>
  The second loop: every entry the \<open>range\<close> over the field map yields, skipping the
  names found in the sorted list of mandatory fields.
\<close>

fun add_remaining :: "string list \<Rightarrow> (string \<times> string) list \<Rightarrow> string \<Rightarrow> string" where
  "add_remaining sorted_mandatory [] buf = buf"
| "add_remaining sorted_mandatory ((field, content) # rest) buf =
     (let idx = SearchStrings sorted_mandatory field
      in if idx < length sorted_mandatory \<and> sorted_mandatory ! idx = field
         then add_remaining sorted_mandatory rest buf
         else add_remaining sorted_mandatory rest (buf @ control_line field content))"

text \<open>The bytes of the control file, before they are written to the archive.\<close>

definition control_bytes :: "env \<Rightarrow> T \<Rightarrow> error + string" where
  "control_bytes e t =
     (case add_mandatory (t_fields t) mandatoryFields [] of
        Inl err \<Rightarrow> Inl err
      | Inr buf \<Rightarrow> Inr (add_remaining (sort mandatoryFields) (range_fields e) buf))"

definition addControl :: "env \<Rightarrow> T \<Rightarrow> tarw \<Rightarrow> int \<Rightarrow> error + tarw" where
  "addControl e t w modTime =
     (case control_bytes e t of
        Inl err \<Rightarrow> Inl err
      | Inr buf \<Rightarrow>
          (case WriteHeader w (fileHeader (slash controlName) (int (length buf)) modTime) of
             Inl err \<Rightarrow> Inl (Error ''Unable to write control file header to archive'')
           | Inr w1 \<Rightarrow>
               (case Copy w1 (Bytes buf) (int (length buf)) of
                  Inl err \<Rightarrow> Inl (Error ''Unable to write control file data to archive'')
                | Inr w2 \<Rightarrow> Inr w2)))"

text \<open>
  \<open>addConffiles\<close> sorts the package's conffile list in place; the sorted list is
  returned with the writer.
\<close>

definition addConffiles :: "T \<Rightarrow> tarw \<Rightarrow> int \<Rightarrow> error + (tarw \<times> T)" where
  "addConffiles t w modTime =
     (if length (t_conffiles t) = 0 then Inr (w, t)
      else
        (let t' = t\<lparr>t_conffiles := sort (t_conffiles t)\<rparr>;
             buf = concat (map (\<lambda>file. file @ [CHR 0x0A]) (t_conffiles t'))
         in case WriteHeader w (fileHeader (slash confName) (int (length buf)) modTime) of
              Inl err \<Rightarrow> Inl (Error ''Unable to write conffiles header to archive'')
            | Inr w1 \<Rightarrow>
                (case Copy w1 (Bytes buf) (int (length buf)) of
                   Inl err \<Rightarrow> Inl (Error ''Unable to write conffiles data to archive'')
                 | Inr w2 \<Rightarrow> Inr (w2, t'))))"

definition addScript :: "env \<Rightarrow> tarw \<Rightarrow> string \<Rightarrow> int \<Rightarrow> int \<Rightarrow> stream option \<Rightarrow> error + tarw" where
  "addScript e w name sz modTime gzdata =
     (let hdr = fileHeader name sz modTime;
          hdr = hdr\<lparr>Mode := Mode hdr OR 73\<rparr>
      in addArchiveEntry e w hdr gzdata)"

fun add_scripts :: "env \<Rightarrow> tarw \<Rightarrow> int \<Rightarrow> (string \<times> file_t) list \<Rightarrow> error + tarw" where
  "add_scripts e w modTime [] = Inr w"
| "add_scripts e w modTime ((scriptname, file) # rest) =
     (case addScript e w scriptname (Size (header file)) modTime (data file) of
        Inl err \<Rightarrow> Inl (Error ''Unable to add script'')
      | Inr w1 \<Rightarrow> add_scripts e w1 modTime rest)"

definition fillControlArchive :: "env \<Rightarrow> T \<Rightarrow> tarw \<Rightarrow> int \<Rightarrow> error + (tarw \<times> T)" where
  "fillControlArchive e t w modTime =
     (case WriteHeader w (directoryHeader ''./'' modTime) of
        Inl err \<Rightarrow> Inl (Error ''Unable to add root entry'')
      | Inr w1 \<Rightarrow>
          (case addControl e t w1 modTime of
             Inl err \<Rightarrow> Inl err
           | Inr w2 \<Rightarrow>
               (case addConffiles t w2 modTime of
                  Inl err \<Rightarrow> Inl err
                | Inr (w3, t') \<Rightarrow>
                    (case add_scripts e w3 modTime (range_scripts e) of
                       Inl err \<Rightarrow> Inl err
                     | Inr w4 \<Rightarrow> Inr (w4, t')))))"

definition createControlArchive :: "env \<Rightarrow> T \<Rightarrow> bool \<Rightarrow> int \<Rightarrow> error + (stream \<times> int \<times> T)" where
  "createControlArchive e t compress modTime =
     (let aw = newTempArchive compress
      in case fillControlArchive e t (aw_Writer aw) modTime of
           Inl err \<Rightarrow> Inl err
         | Inr (w, t') \<Rightarrow>
             (case Finish e (aw\<lparr>aw_Writer := w\<rparr>) of
                Inl err \<Rightarrow> Inl err
              | Inr (r, sz) \<Rightarrow> Inr (r, sz, t')))"

definition writeControlArchive :: "env \<Rightarrow> T \<Rightarrow> tarw \<Rightarrow> bool \<Rightarrow> int \<Rightarrow> error + (tarw \<times> T)" where
  "writeControlArchive e t w compress modTime =
     (case createControlArchive e t compress modTime of
        Inl err \<Rightarrow> Inl err
      | Inr (archive, sz, t') \<Rightarrow>
          (case WriteHeader w (fileHeader (slash controlArchiveName) sz modTime) of
             Inl err \<Rightarrow> Inl (Error ''Unable to write tar header for control.tar.gz'')
           | Inr w1 \<Rightarrow>
               (case Copy w1 archive sz of
                  Inl err \<Rightarrow> Inl (Error ''Unable to write control.tar.gz'')
                | Inr w2 \<Rightarrow> Inr (w2, t'))))"

section \<open>Writing the data archive (data.go)\<close>

text \<open>
  The loop of \<open>fillDataArchive\<close> over the sorted paths. \<open>addArchiveEntry\<close> renames the
  header the map entry points to, so the package changes with every entry written.
\<close>

fun add_entries :: "env \<Rightarrow> T \<Rightarrow> tarw \<Rightarrow> string list \<Rightarrow> error + (tarw \<times> T)" where
  "add_entries e t w [] = Inr (w, t)"
| "add_entries e t w (path # rest) =
     (case t_files t path of
        None \<Rightarrow> Inl (Error ''Unable to add entry'')
      | Some file \<Rightarrow>
          (case addArchiveEntry e w (header file) (data file) of
             Inl err \<Rightarrow> Inl (Error ''Unable to add entry'')
           | Inr w1 \<Rightarrow>
               add_entries e
                 (t\<lparr>t_files := (t_files t)(path \<mapsto> file\<lparr>header := slashed_header (header file)\<rparr>)\<rparr>)
                 w1 rest))"

definition fillDataArchive :: "env \<Rightarrow> T \<Rightarrow> tarw \<Rightarrow> int \<Rightarrow> error + (tarw \<times> T)" where
  "fillDataArchive e t w modTime =
     (case addArchiveEntry e w (directoryHeader ''./'' modTime) None of
        Inl err \<Rightarrow> Inl (Error ''Unable to add root entry'')
      | Inr w1 \<Rightarrow>
          (let paths = sort (map fst (range_files e))
           in add_entries e t w1 paths))"

definition createDataArchive :: "env \<Rightarrow> T \<Rightarrow> bool \<Rightarrow> int \<Rightarrow> error + (stream \<times> int \<times> T)" where
  "createDataArchive e t compress modTime =
     (let aw = newTempArchive compress
      in case fillDataArchive e t (aw_Writer aw) modTime of
           Inl err \<Rightarrow> Inl err
         | Inr (w, t') \<Rightarrow>
             (case Finish e (aw\<lparr>aw_Writer := w\<rparr>) of
                Inl err \<Rightarrow> Inl err
              | Inr (r, sz) \<Rightarrow> Inr (r, sz, t')))"

definition writeDataArchive :: "env \<Rightarrow> T \<Rightarrow> tarw \<Rightarrow> bool \<Rightarrow> int \<Rightarrow> error + (tarw \<times> T)" where
  "writeDataArchive e t w compress modTime =
     (case createDataArchive e t compress modTime of
        Inl err \<Rightarrow> Inl err
      | Inr (archive, sz, t') \<Rightarrow>
          (case WriteHeader w (fileHeader (slash dataArchiveName) sz modTime) of
             Inl err \<Rightarrow> Inl (Error ''Unable to write tar header for data.tar.gz'')
           | Inr w1 \<Rightarrow>
               (case Copy w1 archive sz of
                  Inl err \<Rightarrow> Inl (Error ''Unable to write data.tar.gz'')
                | Inr w2 \<Rightarrow> Inr (w2, t'))))"

section \<open>Writing the package (write.go, format.go)\<close>

type_synonym Format = "32 word"

definition FormatUnknown :: Format where "FormatUnknown = 0"
definition formatGZip :: Format where "formatGZip = 1"
definition FormatTar :: Format where "FormatTar = 2"
definition FormatTarGZip :: Format where "FormatTarGZip = FormatTar OR formatGZip"

definition writeDebianBinary :: "tarw \<Rightarrow> int \<Rightarrow> error + tarw" where
  "writeDebianBinary w modTime =
     (let filename = ''./debian-binary''; filecontent = ''2.0'' @ [CHR 0x0A]
      in case WriteHeader w (fileHeader filename (int (length filecontent)) modTime) of
           Inl err \<Rightarrow> Inl (Error ''Unable to write header for ./debian-binary'')
         | Inr w1 \<Rightarrow>
             (case Copy w1 (Bytes filecontent) (int (length filecontent)) of
                Inl err \<Rightarrow> Inl (Error ''Unable to write content for ./debian-binary'')
              | Inr w2 \<Rightarrow> Inr w2))"

definition writeTar :: "env \<Rightarrow> T \<Rightarrow> tarw \<Rightarrow> bool \<Rightarrow> error + (tarw \<times> T)" where
  "writeTar e t w compress =
     (case writeDebianBinary w (now e) of
        Inl err \<Rightarrow> Inl err
      | Inr w1 \<Rightarrow>
          (case writeControlArchive e t w1 compress (now e) of
             Inl err \<Rightarrow> Inl err
           | Inr (w2, t1) \<Rightarrow>
               (case writeDataArchive e t1 w2 compress (now e) of
                  Inl err \<Rightarrow> Inl err
                | Inr (w3, t2) \<Rightarrow> Inr (w3, t2))))"

text \<open>
  \<open>Write\<close> returns the stream it wrote to the (non-nil) writer, and the package as the
  write left it. The deferred closes run after \<open>writeTar\<close>: the tar writer first, then
  the gzip writer.
\<close>

definition Write :: "env \<Rightarrow> T \<Rightarrow> Format \<Rightarrow> error + (stream \<times> T)" where
  "Write e t format =
     (if format AND NOT formatGZip \<noteq> FormatTar then Inl (Error ''Unsupported format'')
      else
        (case writeTar e t NewWriter (format AND formatGZip = 0) of
           Inl err \<Rightarrow> Inl err
         | Inr (tw, t') \<Rightarrow>
             (case tw_Close tw of
                Inl err \<Rightarrow> Inl (Error ''Error closing TAR stream'')
              | Inr tar \<Rightarrow>
                  Inr (if format AND formatGZip \<noteq> 0 then Gzip BestCompression tar else tar,
                       t'))))"


section \<open>Properties of the path canonicalizer\<close>

lemma unslash_dot_slash: "unslash (CHR ''.'' # CHR ''/'' # p) = unslash p"
  by (subst unslash.simps) (simp add: HasPrefix_def)

lemma unslash_slash: "unslash (CHR ''/'' # p) = unslash p"
  by (subst unslash.simps) (simp add: HasPrefix_def)

lemma unslash_fix:
  "\<not> HasPrefix p ''./'' \<Longrightarrow> \<not> HasPrefix p ''/'' \<Longrightarrow> unslash p = p"
  by (subst unslash.simps) simp

lemma unslash_no_prefix:
  "\<not> HasPrefix (unslash p) ''./'' \<and> \<not> HasPrefix (unslash p) ''/''"
proof (induction p rule: unslash.induct)
  case (1 p)
  show ?case
  proof (cases "HasPrefix p ''./''")
    case True
    with "1.IH"(1) show ?thesis by (subst (1 2) unslash.simps) simp
  next
    case False
    show ?thesis
    proof (cases "HasPrefix p ''/''")
      case True
      with False "1.IH"(2) show ?thesis by (subst (1 2) unslash.simps) simp
    next
      case nslash: False
      with False show ?thesis by (simp add: unslash_fix)
    qed
  qed
qed

lemma unslash_split:
  "\<exists>pre. p = pre @ unslash p \<and> slash_run pre"
proof (induction p rule: unslash.induct)
  case (1 p)
  show ?case
  proof (cases "HasPrefix p ''./''")
    case True
    then obtain r where p: "p = CHR ''.'' # CHR ''/'' # r"
      by (auto simp: HasPrefix_def prefix_def)
    from "1.IH"(1) [OF True] p obtain pre where pre: "r = pre @ unslash r" "slash_run pre"
      by auto
    have "slash_run (CHR ''.'' # CHR ''/'' # pre)"
      using pre(2) by (subst slash_run.simps) (simp add: HasPrefix_def)
    moreover have "p = (CHR ''.'' # CHR ''/'' # pre) @ unslash p"
      using pre(1) p by (simp add: unslash_dot_slash)
    ultimately show ?thesis by blast
  next
    case False
    show ?thesis
    proof (cases "HasPrefix p ''/''")
      case True
      then obtain r where p: "p = CHR ''/'' # r"
        by (auto simp: HasPrefix_def prefix_def)
      from "1.IH"(2) [OF False True] p obtain pre
        where pre: "r = pre @ unslash r" "slash_run pre"
        by auto
      have "slash_run (CHR ''/'' # pre)"
        using pre(2) by (subst slash_run.simps) (simp add: HasPrefix_def)
      moreover have "p = (CHR ''/'' # pre) @ unslash p"
        using pre(1) p by (simp add: unslash_slash)
      ultimately show ?thesis by blast
    next
      case nslash: False
      have "slash_run []" by (subst slash_run.simps) simp
      with False nslash show ?thesis by (simp add: unslash_fix)
    qed
  qed
qed

text \<open>
  C7, as stated, at the path \<open>././foo\<close>: it begins with \<open>./\<close>, yet \<open>unslash\<close> strips
  both leading tokens and \<open>slash\<close> restores only one.
\<close>

theorem C7_slash_unslash_counterexample:
  "HasPrefix ''././foo'' ''./'' \<and> slash (unslash ''././foo'') \<noteq> ''././foo''"
  by (simp add: unslash.simps slash_def HasPrefix_def)

text \<open>
  C7, amended. \<open>slash\<close> and \<open>unslash\<close> are total (both are HOL functions, \<open>unslash\<close>
  with its termination proof above). For every path \<open>./r\<close> whose remainder \<open>r\<close> does not
  itself begin with \<open>./\<close> or \<open>/\<close>, \<open>slash (unslash p) = p\<close>. For every path \<open>p\<close>,
  \<open>unslash p\<close> is \<open>p\<close> without a leading run of \<open>./\<close> and \<open>/\<close> tokens: \<open>p\<close> is that run
  followed by \<open>unslash p\<close>, unchanged, and \<open>unslash p\<close> begins with neither token.
\<close>

theorem C7_slash_unslash:
  "(\<not> HasPrefix r ''./'' \<and> \<not> HasPrefix r ''/'' \<longrightarrow>
      slash (unslash (''./'' @ r)) = ''./'' @ r)
   \<and> (\<exists>pre. p = pre @ unslash p \<and> slash_run pre)
   \<and> \<not> HasPrefix (unslash p) ''./'' \<and> \<not> HasPrefix (unslash p) ''/''"
proof -
  have "slash (unslash (''./'' @ r)) = ''./'' @ r"
    if "\<not> HasPrefix r ''./''" "\<not> HasPrefix r ''/''"
  proof -
    have "unslash (''./'' @ r) = r"
      using that by (simp add: unslash_dot_slash unslash_fix)
    then show ?thesis
      using that by (simp add: slash_def)
  qed
  then show ?thesis
    using unslash_split [of p] unslash_no_prefix [of p] by blast
qed

theorem C7_slash_unslash_witness:
  "\<not> HasPrefix ''foo/./'' ''./'' \<and> \<not> HasPrefix ''foo/./'' ''/''
   \<and> slash (unslash ''./foo/./'') = ''./foo/./''
   \<and> unslash ''.///foo'' = ''foo''"
  using C7_slash_unslash [of "''foo/./''" "''.///foo''"]
  by (simp add: HasPrefix_def unslash.simps)

section \<open>What the writers produce\<close>

lemma Finish_level:
  "Finish e aw = Inr (r, n) \<Longrightarrow> \<exists>es. r = Gzip (aw_level aw) (Tar es) \<and> n = stream_len e r"
  by (auto simp: Finish_def tw_Close_def Let_def split: sum.splits if_splits)

lemma createControlArchive_level:
  "createControlArchive e t c m = Inr (r, n, t') \<Longrightarrow> \<exists>es. r = Gzip (compressionLevel c) (Tar es) \<and> 0 \<le> n"
  by (auto simp: createControlArchive_def newTempArchive_def newArchiveForFile_def Let_def
      stream_len_def split: sum.splits prod.splits dest!: Finish_level)

lemma createDataArchive_level:
  "createDataArchive e t c m = Inr (r, n, t') \<Longrightarrow> \<exists>es. r = Gzip (compressionLevel c) (Tar es) \<and> 0 \<le> n"
  by (auto simp: createDataArchive_def newTempArchive_def newArchiveForFile_def Let_def
      stream_len_def split: sum.splits prod.splits dest!: Finish_level)

lemma writeDebianBinary_New:
  "writeDebianBinary NewWriter m = Inr
     \<lparr>tw_entries = [(fileHeader ''./debian-binary'' 4 m, Bytes (''2.0'' @ [CHR 0x0A]))], tw_pending = 0\<rparr>"
  by (simp add: writeDebianBinary_def WriteHeader_def NewWriter_def Copy_def fileHeader_def
      specialHeader_def Let_def isHeaderOnlyType_def TypeReg_def TypeLink_def TypeSymlink_def
      TypeChar_def TypeBlock_def TypeDir_def TypeFifo_def)

lemma write_file_entry:
  "tw_pending w = 0 \<Longrightarrow> 0 \<le> n \<Longrightarrow> WriteHeader w (fileHeader name n m) = Inr w1 \<Longrightarrow> Copy w1 src n = Inr w2
   \<Longrightarrow> tw_entries w2 = tw_entries w @ [(fileHeader name n m, src)] \<and> tw_pending w2 = 0"
  by (auto simp: WriteHeader_def Copy_def fileHeader_def
      specialHeader_def Let_def isHeaderOnlyType_def TypeReg_def TypeLink_def TypeSymlink_def
      TypeChar_def TypeBlock_def TypeDir_def TypeFifo_def split: if_splits)

lemma writeTar_shape:
  assumes "writeTar e t NewWriter c = Inr (w, t')"
  shows "\<exists>ce de szc szd.
     tw_entries w =
       [(fileHeader ''./debian-binary'' 4 (now e), Bytes (''2.0'' @ [CHR 0x0A])),
        (fileHeader ''./control.tar.gz'' szc (now e), Gzip (compressionLevel c) (Tar ce)),
        (fileHeader ''./data.tar.gz'' szd (now e), Gzip (compressionLevel c) (Tar de))]
     \<and> tw_pending w = 0"
proof -
  let ?w0 = "\<lparr>tw_entries = [(fileHeader ''./debian-binary'' 4 (now e), Bytes (''2.0'' @ [CHR 0x0A]))],
      tw_pending = 0\<rparr>"
  from assms obtain w2 t1 where
    c: "writeControlArchive e t ?w0 c (now e) = Inr (w2, t1)" and
    d: "writeDataArchive e t1 w2 c (now e) = Inr (w, t')"
    by (auto simp: writeTar_def writeDebianBinary_New split: sum.splits)
  from c obtain ra szc tc wa where
    c1: "createControlArchive e t c (now e) = Inr (ra, szc, tc)" and
    c2: "WriteHeader ?w0 (fileHeader (slash controlArchiveName) szc (now e)) = Inr wa" and
    c3: "Copy wa ra szc = Inr w2"
    by (auto simp: writeControlArchive_def split: sum.splits)
  from createControlArchive_level [OF c1] obtain ce where ce: "ra = Gzip (compressionLevel c) (Tar ce)" "0 \<le> szc" by blast
  from write_file_entry [OF _ ce(2) c2 c3]
  have w2: "tw_entries w2 = tw_entries ?w0 @ [(fileHeader (slash controlArchiveName) szc (now e), ra)]"
    "tw_pending w2 = 0" by simp_all
  from d obtain rd szd td wb where
    d1: "createDataArchive e t1 c (now e) = Inr (rd, szd, td)" and
    d2: "WriteHeader w2 (fileHeader (slash dataArchiveName) szd (now e)) = Inr wb" and
    d3: "Copy wb rd szd = Inr w"
    by (auto simp: writeDataArchive_def split: sum.splits)
  from createDataArchive_level [OF d1] obtain de where de: "rd = Gzip (compressionLevel c) (Tar de)" "0 \<le> szd" by blast
  from write_file_entry [OF w2(2) de(2) d2 d3]
  have w: "tw_entries w = tw_entries w2 @ [(fileHeader (slash dataArchiveName) szd (now e), rd)]"
    "tw_pending w = 0" by simp_all
  have n: "slash controlArchiveName = ''./control.tar.gz''" "slash dataArchiveName = ''./data.tar.gz''"
    by (simp_all add: slash_def HasPrefix_def controlArchiveName_def dataArchiveName_def)
  show ?thesis using w w2 ce(1) de(1) n by auto
qed

lemmas Typeflag_defs =
  TypeReg_def TypeRegA_def TypeLink_def TypeSymlink_def TypeChar_def TypeBlock_def
  TypeDir_def TypeFifo_def

lemma search_loop_spec:
  assumes "sorted a" "i \<le> j" "j \<le> length a"
    "\<forall>k<i. a ! k < x" "\<forall>k. j \<le> k \<and> k < length a \<longrightarrow> x \<le> a ! k"
  shows "i \<le> search_loop (\<lambda>k. x \<le> a ! k) i j \<and> search_loop (\<lambda>k. x \<le> a ! k) i j \<le> j
     \<and> (\<forall>k < search_loop (\<lambda>k. x \<le> a ! k) i j. a ! k < x)
     \<and> (\<forall>k. search_loop (\<lambda>k. x \<le> a ! k) i j \<le> k \<and> k < length a \<longrightarrow> x \<le> a ! k)"
  using assms
proof (induction "\<lambda>k. x \<le> a ! k" i j rule: search_loop.induct)
  case (1 i j)
  show ?case
  proof (cases "i < j")
    case False
    with "1.prems" have "i = j" by simp
    with "1.prems" False show ?thesis
      by (subst (1 2 3 4) search_loop.simps) simp
  next
    case True
    define h where "h = (i + j) div 2"
    have h: "i \<le> h" "h < j" using True by (simp_all add: h_def)
    show ?thesis
    proof (cases "x \<le> a ! h")
      case le: True
      have "\<forall>k. h \<le> k \<and> k < length a \<longrightarrow> x \<le> a ! k"
      proof (intro allI impI)
        fix k assume "h \<le> k \<and> k < length a"
        then have "a ! h \<le> a ! k" using "1.prems"(1) by (simp add: sorted_nth_mono)
        with le show "x \<le> a ! k" by simp
      qed
      with "1.hyps"(2) [OF True h_def [symmetric, THEN sym]] le "1.prems" h
      have IH: "i \<le> search_loop (\<lambda>k. x \<le> a ! k) i h \<and> search_loop (\<lambda>k. x \<le> a ! k) i h \<le> h
         \<and> (\<forall>k < search_loop (\<lambda>k. x \<le> a ! k) i h. a ! k < x)
         \<and> (\<forall>k. search_loop (\<lambda>k. x \<le> a ! k) i h \<le> k \<and> k < length a \<longrightarrow> x \<le> a ! k)"
        by simp
      have eq: "search_loop (\<lambda>k. x \<le> a ! k) i j = search_loop (\<lambda>k. x \<le> a ! k) i h"
        using True le by (subst search_loop.simps) (simp add: h_def Let_def)
      show ?thesis unfolding eq using IH h by auto
    next
      case nle: False
      have "\<forall>k<h + 1. a ! k < x"
      proof (intro allI impI)
        fix k assume "k < h + 1"
        then have "a ! k \<le> a ! h" using "1.prems"(1,3) h by (simp add: sorted_nth_mono)
        with nle show "a ! k < x" by simp
      qed
      with "1.hyps"(1) [OF True h_def [symmetric, THEN sym]] nle "1.prems" h
      have IH: "h + 1 \<le> search_loop (\<lambda>k. x \<le> a ! k) (h + 1) j \<and> search_loop (\<lambda>k. x \<le> a ! k) (h + 1) j \<le> j
         \<and> (\<forall>k < search_loop (\<lambda>k. x \<le> a ! k) (h + 1) j. a ! k < x)
         \<and> (\<forall>k. search_loop (\<lambda>k. x \<le> a ! k) (h + 1) j \<le> k \<and> k < length a \<longrightarrow> x \<le> a ! k)"
        by simp
      have eq: "search_loop (\<lambda>k. x \<le> a ! k) i j = search_loop (\<lambda>k. x \<le> a ! k) (h + 1) j"
        using True nle by (subst search_loop.simps) (simp add: h_def Let_def)
      show ?thesis unfolding eq using IH h by auto
    qed
  qed
qed

lemma SearchStrings_mem:
  assumes "sorted a"
  shows "(SearchStrings a x < length a \<and> a ! SearchStrings a x = x) \<longleftrightarrow> x \<in> set a"
proof -
  let ?r = "SearchStrings a x"
  have "\<forall>k<0. a ! k < x" "\<forall>k. length a \<le> k \<and> k < length a \<longrightarrow> x \<le> a ! k"
    by auto
  from search_loop_spec [OF assms _ _ this]
  have r: "?r \<le> length a" "\<forall>k < ?r. a ! k < x" "\<forall>k. ?r \<le> k \<and> k < length a \<longrightarrow> x \<le> a ! k"
    by (auto simp: SearchStrings_def Search_def)
  show ?thesis
  proof
    assume "?r < length a \<and> a ! ?r = x"
    then show "x \<in> set a" by (metis nth_mem)
  next
    assume "x \<in> set a"
    then obtain k where k: "k < length a" "a ! k = x" by (auto simp: in_set_conv_nth)
    with r(2) have "?r \<le> k" by (metis less_irrefl not_le)
    with k assms have "a ! ?r \<le> x" by (metis sorted_nth_mono)
    moreover from r(3) \<open>?r \<le> k\<close> k have "?r < length a" "x \<le> a ! ?r" by auto
    ultimately show "?r < length a \<and> a ! ?r = x" by simp
  qed
qed

definition with_entry :: "tarw \<Rightarrow> Header \<Rightarrow> stream \<Rightarrow> tarw" where
  "with_entry w h c = \<lparr>tw_entries = tw_entries w @ [(h, c)], tw_pending = 0\<rparr>"

lemma with_entry_simps [simp]:
  "tw_entries (with_entry w h c) = tw_entries w @ [(h, c)]" "tw_pending (with_entry w h c) = 0"
  by (simp_all add: with_entry_def)

lemma not_header_only_reg [simp]: "\<not> isHeaderOnlyType TypeReg" "\<not> isHeaderOnlyType TypeRegA"
  by (simp_all add: isHeaderOnlyType_def Typeflag_defs)

lemma header_only_dir [simp]: "isHeaderOnlyType TypeDir" "isHeaderOnlyType TypeSymlink"
  by (simp_all add: isHeaderOnlyType_def)

lemma fileHeader_sel [simp]:
  "0 \<le> n \<Longrightarrow> Typeflag (fileHeader name n m) = TypeReg"
  "0 \<le> n \<Longrightarrow> Size (fileHeader name n m) = n"
  "0 \<le> n \<Longrightarrow> Mode (fileHeader name n m) = 420"
  "Name (fileHeader name n m) = name"
  "Linkname (fileHeader name n m) = []"
  by (simp_all add: fileHeader_def specialHeader_def zeroHeader_def Let_def)

lemma directoryHeader_sel [simp]:
  "Typeflag (directoryHeader name m) = TypeDir"
  "Size (directoryHeader name m) = 0"
  "Mode (directoryHeader name m) = 493"
  "Name (directoryHeader name m) = name"
  "Linkname (directoryHeader name m) = []"
  by (simp_all add: directoryHeader_def specialHeader_def zeroHeader_def Let_def)

lemma write_content:
  assumes "tw_pending w = 0" "\<not> isHeaderOnlyType (Typeflag h)" "Size h = n" "0 \<le> n"
  shows "\<exists>w1. WriteHeader w h = Inr w1 \<and> Copy w1 src n = Inr (with_entry w h src)"
  using assms by (simp add: WriteHeader_def Copy_def with_entry_def)

lemma write_header_only:
  assumes "tw_pending w = 0" "isHeaderOnlyType (Typeflag h)" "0 \<le> Size h"
  shows "WriteHeader w h = Inr (with_entry w h (Bytes []))"
  using assms by (simp add: WriteHeader_def with_entry_def)

lemma write_empty:
  assumes "tw_pending w = 0" "Size h = 0"
  shows "WriteHeader w h = Inr (with_entry w h (Bytes []))"
  using assms by (simp add: WriteHeader_def with_entry_def)

subsection \<open>The control file\<close>

definition mandatory_lines :: "(string \<rightharpoonup> string) \<Rightarrow> string" where
  "mandatory_lines fs = concat (map (\<lambda>f. control_line f (the (fs f))) mandatoryFields)"

definition remaining_lines :: "(string \<times> string) list \<Rightarrow> string" where
  "remaining_lines kvs =
     concat (map (\<lambda>(f, c). control_line f c) (filter (\<lambda>(f, c). f \<notin> set mandatoryFields) kvs))"

lemma add_mandatory_eq:
  "set ms \<subseteq> dom fs \<Longrightarrow>
   add_mandatory fs ms buf = Inr (buf @ concat (map (\<lambda>f. control_line f (the (fs f))) ms))"
  by (induction ms arbitrary: buf) auto

lemma add_mandatory_missing:
  "\<not> set ms \<subseteq> dom fs \<Longrightarrow> add_mandatory fs ms buf = Inl (Error ''Mandatory control field missing'')"
  by (induction ms arbitrary: buf) (auto split: option.splits)

lemma add_remaining_eq:
  "sorted sm \<Longrightarrow>
   add_remaining sm kvs buf =
     buf @ concat (map (\<lambda>(f, c). control_line f c) (filter (\<lambda>(f, c). f \<notin> set sm) kvs))"
proof (induction kvs arbitrary: buf)
  case Nil
  then show ?case by simp
next
  case (Cons kv kvs)
  obtain f c where kv: "kv = (f, c)" by (cases kv)
  show ?case
    using Cons SearchStrings_mem [OF Cons.prems, of f] by (simp add: kv Let_def)
qed

lemma control_bytes_eq:
  "set mandatoryFields \<subseteq> dom (t_fields t) \<Longrightarrow>
   control_bytes e t = Inr (mandatory_lines (t_fields t) @ remaining_lines (range_fields e))"
  by (simp add: control_bytes_def add_mandatory_eq add_remaining_eq mandatory_lines_def
      remaining_lines_def)

lemma control_bytes_missing:
  "\<not> set mandatoryFields \<subseteq> dom (t_fields t) \<Longrightarrow>
   control_bytes e t = Inl (Error ''Mandatory control field missing'')"
  by (simp add: control_bytes_def add_mandatory_missing)

lemma slash_names [simp]:
  "slash controlName = ''./control''" "slash confName = ''./conffiles''"
  "slash controlArchiveName = ''./control.tar.gz''" "slash dataArchiveName = ''./data.tar.gz''"
  "slash ''./'' = ''./''"
  by (simp_all add: slash_def HasPrefix_def controlName_def confName_def controlArchiveName_def
      dataArchiveName_def)

lemma addControl_eq:
  assumes "set mandatoryFields \<subseteq> dom (t_fields t)" "tw_pending w = 0"
  shows "addControl e t w m =
     Inr (with_entry w
       (fileHeader ''./control''
          (int (length (mandatory_lines (t_fields t) @ remaining_lines (range_fields e)))) m)
       (Bytes (mandatory_lines (t_fields t) @ remaining_lines (range_fields e))))"
proof -
  let ?b = "mandatory_lines (t_fields t) @ remaining_lines (range_fields e)"
  from write_content [OF assms(2), of "fileHeader ''./control'' (int (length ?b)) m" "int (length ?b)" "Bytes ?b"]
  obtain w1 where "WriteHeader w (fileHeader ''./control'' (int (length ?b)) m) = Inr w1"
    "Copy w1 (Bytes ?b) (int (length ?b)) = Inr (with_entry w (fileHeader ''./control'' (int (length ?b)) m) (Bytes ?b))"
    by auto
  then show ?thesis
    using assms(1) by (simp add: addControl_def control_bytes_eq)
qed

lemma addControl_missing:
  "\<not> set mandatoryFields \<subseteq> dom (t_fields t) \<Longrightarrow>
   addControl e t w m = Inl (Error ''Mandatory control field missing'')"
  by (simp add: addControl_def control_bytes_missing)

definition append_entries :: "tarw \<Rightarrow> (Header \<times> stream) list \<Rightarrow> tarw" where
  "append_entries w es = \<lparr>tw_entries = tw_entries w @ es, tw_pending = 0\<rparr>"

lemma append_entries_simps [simp]:
  "tw_entries (append_entries w es) = tw_entries w @ es" "tw_pending (append_entries w es) = 0"
  "append_entries (append_entries w es) es' = append_entries w (es @ es')"
  "with_entry w h c = append_entries w [(h, c)]"
  by (simp_all add: append_entries_def with_entry_def)

lemma append_entries_Nil: "tw_pending w = 0 \<Longrightarrow> append_entries w [] = w"
  by (simp add: append_entries_def)

text \<open>What \<open>addArchiveEntry\<close> accepts, and the content it writes.\<close>

definition archive_entry_ok :: "env \<Rightarrow> Header \<Rightarrow> stream option \<Rightarrow> bool" where
  "archive_entry_ok e h d \<longleftrightarrow>
     0 \<le> Size h \<and>
     (case d of
        None \<Rightarrow> isHeaderOnlyType (Typeflag h) \<or> Size h = 0
      | Some buf \<Rightarrow>
          (case gunzip buf of
             None \<Rightarrow> False
           | Some s \<Rightarrow> stream_len e s = (if isHeaderOnlyType (Typeflag h) then 0 else Size h)))"

definition entry_content :: "stream option \<Rightarrow> stream" where
  "entry_content d =
     (case d of
        None \<Rightarrow> Bytes []
      | Some buf \<Rightarrow> (case gunzip buf of None \<Rightarrow> Bytes [] | Some s \<Rightarrow> s))"

lemma slashed_header_sel [simp]:
  "Typeflag (slashed_header h) = Typeflag h" "Size (slashed_header h) = Size h"
  "Mode (slashed_header h) = Mode h" "Linkname (slashed_header h) = Linkname h"
  "Name (slashed_header h) = slash (Name h)"
  by (simp_all add: slashed_header_def)

lemma addArchiveEntry_eq:
  assumes "tw_pending w = 0" "archive_entry_ok e h d"
  shows "addArchiveEntry e w h d = Inr (append_entries w [(slashed_header h, entry_content d)])"
proof (cases d)
  case None
  with assms show ?thesis
    by (auto simp: addArchiveEntry_def archive_entry_ok_def entry_content_def Let_def
        WriteHeader_def append_entries_def)
next
  case (Some buf)
  with assms obtain s where s: "gunzip buf = Some s"
    "stream_len e s = (if isHeaderOnlyType (Typeflag h) then 0 else Size h)" "0 \<le> Size h"
    by (auto simp: archive_entry_ok_def split: option.splits)
  then show ?thesis
    using assms(1) Some
    by (simp add: addArchiveEntry_def entry_content_def Let_def WriteHeader_def Copy_def
        append_entries_def)
qed

subsection \<open>The control archive\<close>

definition conf_bytes :: "string list \<Rightarrow> string" where
  "conf_bytes cs = concat (map (\<lambda>file. file @ [CHR 0x0A]) (sort cs))"

definition control_entry :: "env \<Rightarrow> T \<Rightarrow> int \<Rightarrow> Header \<times> stream" where
  "control_entry e t m =
     (let b = mandatory_lines (t_fields t) @ remaining_lines (range_fields e)
      in (fileHeader ''./control'' (int (length b)) m, Bytes b))"

definition conffiles_entries :: "T \<Rightarrow> int \<Rightarrow> (Header \<times> stream) list" where
  "conffiles_entries t m =
     (if t_conffiles t = [] then []
      else [(fileHeader ''./conffiles'' (int (length (conf_bytes (t_conffiles t)))) m,
             Bytes (conf_bytes (t_conffiles t)))])"

definition script_header :: "string \<Rightarrow> file_t \<Rightarrow> int \<Rightarrow> Header" where
  "script_header name f m = (fileHeader name (Size (header f)) m)\<lparr>Mode := 493\<rparr>"

definition script_entry :: "int \<Rightarrow> string \<times> file_t \<Rightarrow> Header \<times> stream" where
  "script_entry m = (\<lambda>(name, f). (slashed_header (script_header name f m), entry_content (data f)))"

definition script_ok :: "env \<Rightarrow> file_t \<Rightarrow> bool" where
  "script_ok e f \<longleftrightarrow>
     (case data f of
        None \<Rightarrow> False
      | Some buf \<Rightarrow>
          (case gunzip buf of None \<Rightarrow> False | Some s \<Rightarrow> stream_len e s = Size (header f)))"

lemma addConffiles_eq:
  assumes "tw_pending w = 0"
  shows "addConffiles t w m =
     Inr (append_entries w (conffiles_entries t m), t\<lparr>t_conffiles := sort (t_conffiles t)\<rparr>)"
proof (cases "t_conffiles t = []")
  case True
  with assms show ?thesis
    by (simp add: addConffiles_def conffiles_entries_def append_entries_Nil)
next
  case False
  let ?b = "conf_bytes (t_conffiles t)"
  from write_content [OF assms, of "fileHeader ''./conffiles'' (int (length ?b)) m" "int (length ?b)" "Bytes ?b"]
  obtain w1 where "WriteHeader w (fileHeader ''./conffiles'' (int (length ?b)) m) = Inr w1"
    "Copy w1 (Bytes ?b) (int (length ?b)) = Inr (with_entry w (fileHeader ''./conffiles'' (int (length ?b)) m) (Bytes ?b))"
    by auto
  with False show ?thesis
    by (simp add: addConffiles_def conffiles_entries_def conf_bytes_def Let_def)
qed

lemma script_mode: "0 \<le> n \<Longrightarrow> (fileHeader name n m)\<lparr>Mode := Mode (fileHeader name n m) OR 73\<rparr> = (fileHeader name n m)\<lparr>Mode := 493\<rparr>"
  by simp

lemma addScript_eq:
  assumes "tw_pending w = 0" "script_ok e f"
  shows "addScript e w name (Size (header f)) m (data f) = Inr (append_entries w [script_entry m (name, f)])"
proof -
  from assms(2) obtain buf s where d: "data f = Some buf" "gunzip buf = Some s" "stream_len e s = Size (header f)"
    by (auto simp: script_ok_def split: option.splits)
  then have nn: "0 \<le> Size (header f)" by (simp add: stream_len_def)
  have "archive_entry_ok e (script_header name f m) (data f)"
    using d nn by (simp add: archive_entry_ok_def script_header_def)
  from addArchiveEntry_eq [OF assms(1) this] show ?thesis
    using nn by (simp add: addScript_def Let_def script_mode script_entry_def script_header_def)
qed

lemma add_scripts_eq:
  assumes "tw_pending w = 0" "\<forall>(name, f) \<in> set kvs. script_ok e f"
  shows "add_scripts e w m kvs = Inr (append_entries w (map (script_entry m) kvs))"
  using assms
proof (induction kvs arbitrary: w)
  case Nil
  then show ?case by (simp add: append_entries_Nil)
next
  case (Cons kv kvs)
  obtain name f where kv: "kv = (name, f)" by (cases kv)
  from Cons.prems kv have ok: "script_ok e f" by simp
  show ?case
    using Cons.prems Cons.IH [of "append_entries w [script_entry m (name, f)]"]
    by (simp add: kv addScript_eq [OF Cons.prems(1) ok])
qed

definition control_entries :: "env \<Rightarrow> T \<Rightarrow> int \<Rightarrow> (Header \<times> stream) list" where
  "control_entries e t m =
     (directoryHeader ''./'' m, Bytes []) # control_entry e t m # conffiles_entries t m
       @ map (script_entry m) (range_scripts e)"

definition control_ok :: "env \<Rightarrow> T \<Rightarrow> bool" where
  "control_ok e t \<longleftrightarrow>
     set mandatoryFields \<subseteq> dom (t_fields t) \<and> (\<forall>(name, f) \<in> set (range_scripts e). script_ok e f)"

lemma fillControlArchive_eq:
  assumes "tw_pending w = 0" "control_ok e t"
  shows "fillControlArchive e t w m =
     Inr (append_entries w (control_entries e t m), t\<lparr>t_conffiles := sort (t_conffiles t)\<rparr>)"
proof -
  have 1: "WriteHeader w (directoryHeader ''./'' m) = Inr (append_entries w [(directoryHeader ''./'' m, Bytes [])])"
    using write_header_only [OF assms(1), of "directoryHeader ''./'' m"] by simp
  show ?thesis
    using assms(2)
    by (simp add: fillControlArchive_def 1 addControl_eq addConffiles_eq add_scripts_eq
        control_ok_def control_entries_def control_entry_def Let_def)
qed

lemma fillControlArchive_missing:
  assumes "\<not> set mandatoryFields \<subseteq> dom (t_fields t)"
  shows "\<exists>err. fillControlArchive e t w m = Inl err"
  using assms by (simp add: fillControlArchive_def addControl_missing split: sum.splits)

lemma createControlArchive_eq:
  assumes "control_ok e t"
  shows "createControlArchive e t c m =
     Inr (Gzip (compressionLevel c) (Tar (control_entries e t m)),
          stream_len e (Gzip (compressionLevel c) (Tar (control_entries e t m))),
          t\<lparr>t_conffiles := sort (t_conffiles t)\<rparr>)"
  using assms
  by (simp add: createControlArchive_def newTempArchive_def newArchiveForFile_def Let_def
      fillControlArchive_eq NewWriter_def Finish_def tw_Close_def)

lemma createControlArchive_missing:
  assumes "\<not> set mandatoryFields \<subseteq> dom (t_fields t)"
  shows "\<exists>err. createControlArchive e t c m = Inl err"
  using fillControlArchive_missing [OF assms, of e "aw_Writer (newTempArchive c)" m]
  by (auto simp: createControlArchive_def Let_def)

subsection \<open>The data archive\<close>

definition slashed_file :: "file_t \<Rightarrow> file_t" where
  "slashed_file f = f\<lparr>header := slashed_header (header f)\<rparr>"

definition file_entry :: "file_t \<Rightarrow> Header \<times> stream" where
  "file_entry f = (slashed_header (header f), entry_content (data f))"

definition file_ok :: "env \<Rightarrow> file_t \<Rightarrow> bool" where
  "file_ok e f \<longleftrightarrow> archive_entry_ok e (header f) (data f)"

text \<open>The package after the entries at \<open>paths\<close> have been written.\<close>

definition slash_files :: "string list \<Rightarrow> T \<Rightarrow> T" where
  "slash_files paths t =
     t\<lparr>t_files := (\<lambda>p. if p \<in> set paths then map_option slashed_file (t_files t p)
                         else t_files t p)\<rparr>"

lemma slash_files_Nil [simp]: "slash_files [] t = t"
  by (simp add: slash_files_def)

lemma add_entries_eq:
  assumes "tw_pending w = 0" "distinct paths"
    "\<forall>p \<in> set paths. \<exists>f. t_files t p = Some f \<and> file_ok e f"
  shows "add_entries e t w paths =
     Inr (append_entries w (map (\<lambda>p. file_entry (the (t_files t p))) paths), slash_files paths t)"
  using assms
proof (induction paths arbitrary: w t)
  case Nil
  then show ?case by (simp add: append_entries_Nil)
next
  case (Cons p paths)
  from Cons.prems obtain f where f: "t_files t p = Some f" "file_ok e f" by auto
  let ?t = "t\<lparr>t_files := (t_files t)(p \<mapsto> f\<lparr>header := slashed_header (header f)\<rparr>)\<rparr>"
  let ?w = "append_entries w [file_entry f]"
  have add: "addArchiveEntry e w (header f) (data f) = Inr ?w"
    using addArchiveEntry_eq [OF Cons.prems(1)] f(2) by (simp add: file_ok_def file_entry_def)
  have rest: "\<forall>q \<in> set paths. \<exists>g. t_files ?t q = Some g \<and> file_ok e g"
    using Cons.prems by auto
  have same: "map (\<lambda>q. file_entry (the (t_files ?t q))) paths = map (\<lambda>q. file_entry (the (t_files t q))) paths"
    using Cons.prems(2) by (intro map_cong) auto
  have st: "slash_files paths ?t = slash_files (p # paths) t"
    using Cons.prems(2) f(1) by (auto simp: slash_files_def slashed_file_def fun_eq_iff)
  from Cons.IH [of ?w ?t] Cons.prems(2) rest
  have "add_entries e ?t ?w paths =
     Inr (append_entries ?w (map (\<lambda>q. file_entry (the (t_files ?t q))) paths), slash_files paths ?t)"
    by simp
  then show ?case
    unfolding same st by (simp add: f(1) add)
qed

definition data_entries :: "env \<Rightarrow> T \<Rightarrow> int \<Rightarrow> (Header \<times> stream) list" where
  "data_entries e t m =
     (directoryHeader ''./'' m, Bytes [])
       # map (\<lambda>p. file_entry (the (t_files t p))) (sort (map fst (range_files e)))"

definition data_ok :: "env \<Rightarrow> T \<Rightarrow> bool" where
  "data_ok e t \<longleftrightarrow> is_range (t_files t) (range_files e) \<and> (\<forall>(p, f) \<in> set (range_files e). file_ok e f)"

lemma is_range_lookup:
  "is_range m kvs \<Longrightarrow> (k, v) \<in> set kvs \<longleftrightarrow> m k = Some v"
  by (auto simp: is_range_def)

lemma is_range_dom: "is_range m kvs \<Longrightarrow> set (map fst kvs) = dom m"
  by (force simp: is_range_def dom_map_of_conv_image_fst)

lemma fillDataArchive_eq:
  assumes "tw_pending w = 0" "data_ok e t"
  shows "fillDataArchive e t w m =
     Inr (append_entries w (data_entries e t m), slash_files (map fst (range_files e)) t)"
proof -
  let ?paths = "sort (map fst (range_files e))"
  have r: "is_range (t_files t) (range_files e)" using assms(2) by (simp add: data_ok_def)
  have d: "distinct ?paths" using r by (simp add: is_range_def)
  have ok: "\<forall>p \<in> set ?paths. \<exists>f. t_files t p = Some f \<and> file_ok e f"
  proof
    fix p assume "p \<in> set ?paths"
    then obtain f where pf: "(p, f) \<in> set (range_files e)" by auto
    with assms(2) have "file_ok e f" by (auto simp: data_ok_def)
    with pf is_range_lookup [OF r] show "\<exists>f. t_files t p = Some f \<and> file_ok e f" by auto
  qed
  have 1: "addArchiveEntry e w (directoryHeader ''./'' m) None
      = Inr (append_entries w [(directoryHeader ''./'' m, Bytes [])])"
  proof -
    have "archive_entry_ok e (directoryHeader ''./'' m) None"
      by (simp add: archive_entry_ok_def)
    moreover have "slashed_header (directoryHeader ''./'' m) = directoryHeader ''./'' m"
      by (simp add: slashed_header_def)
    ultimately show ?thesis
      using addArchiveEntry_eq [OF assms(1), of e "directoryHeader ''./'' m" None]
      by (simp add: entry_content_def)
  qed
  have s: "slash_files ?paths t = slash_files (map fst (range_files e)) t"
    by (simp add: slash_files_def)
  show ?thesis
    using add_entries_eq [OF _ d ok, of "append_entries w [(directoryHeader ''./'' m, Bytes [])]"]
    by (simp add: fillDataArchive_def 1 Let_def data_entries_def s)
qed

lemma createDataArchive_eq:
  assumes "data_ok e t"
  shows "createDataArchive e t c m =
     Inr (Gzip (compressionLevel c) (Tar (data_entries e t m)),
          stream_len e (Gzip (compressionLevel c) (Tar (data_entries e t m))),
          slash_files (map fst (range_files e)) t)"
  using assms
  by (simp add: createDataArchive_def newTempArchive_def newArchiveForFile_def Let_def
      fillDataArchive_eq NewWriter_def Finish_def tw_Close_def)

subsection \<open>The package\<close>

definition debian_binary_entry :: "int \<Rightarrow> Header \<times> stream" where
  "debian_binary_entry m = (fileHeader ''./debian-binary'' 4 m, Bytes (''2.0'' @ [CHR 0x0A]))"

definition sub_archive :: "env \<Rightarrow> string \<Rightarrow> int \<Rightarrow> (Header \<times> stream) list \<Rightarrow> Header \<times> stream" where
  "sub_archive e name level es =
     (fileHeader name (stream_len e (Gzip level (Tar es))) (now e), Gzip level (Tar es))"

definition package_entries :: "env \<Rightarrow> T \<Rightarrow> bool \<Rightarrow> (Header \<times> stream) list" where
  "package_entries e t compress =
     [debian_binary_entry (now e),
      sub_archive e ''./control.tar.gz'' (compressionLevel compress) (control_entries e t (now e)),
      sub_archive e ''./data.tar.gz'' (compressionLevel compress) (data_entries e t (now e))]"

definition written :: "env \<Rightarrow> T \<Rightarrow> T" where
  "written e t = slash_files (map fst (range_files e)) (t\<lparr>t_conffiles := sort (t_conffiles t)\<rparr>)"

lemma stream_len_nonneg [simp]: "0 \<le> stream_len e s"
  by (simp add: stream_len_def)

lemma data_ok_sorted: "data_ok e (t\<lparr>t_conffiles := cs\<rparr>) = data_ok e t"
  by (simp add: data_ok_def)

lemma data_entries_sorted: "data_entries e (t\<lparr>t_conffiles := cs\<rparr>) m = data_entries e t m"
  by (simp add: data_entries_def)

lemma writeControlArchive_eq:
  assumes "tw_pending w = 0" "control_ok e t"
  shows "writeControlArchive e t w c (now e) =
     Inr (append_entries w [sub_archive e ''./control.tar.gz'' (compressionLevel c) (control_entries e t (now e))],
          t\<lparr>t_conffiles := sort (t_conffiles t)\<rparr>)"
proof -
  let ?a = "Gzip (compressionLevel c) (Tar (control_entries e t (now e)))"
  from write_content [OF assms(1), of "fileHeader ''./control.tar.gz'' (stream_len e ?a) (now e)" "stream_len e ?a" ?a]
  obtain w1 where "WriteHeader w (fileHeader ''./control.tar.gz'' (stream_len e ?a) (now e)) = Inr w1"
    "Copy w1 ?a (stream_len e ?a) = Inr (with_entry w (fileHeader ''./control.tar.gz'' (stream_len e ?a) (now e)) ?a)"
    by auto
  then show ?thesis
    by (simp add: writeControlArchive_def createControlArchive_eq [OF assms(2)] sub_archive_def)
qed

lemma writeDataArchive_eq:
  assumes "tw_pending w = 0" "data_ok e t"
  shows "writeDataArchive e t w c (now e) =
     Inr (append_entries w [sub_archive e ''./data.tar.gz'' (compressionLevel c) (data_entries e t (now e))],
          slash_files (map fst (range_files e)) t)"
proof -
  let ?a = "Gzip (compressionLevel c) (Tar (data_entries e t (now e)))"
  from write_content [OF assms(1), of "fileHeader ''./data.tar.gz'' (stream_len e ?a) (now e)" "stream_len e ?a" ?a]
  obtain w1 where "WriteHeader w (fileHeader ''./data.tar.gz'' (stream_len e ?a) (now e)) = Inr w1"
    "Copy w1 ?a (stream_len e ?a) = Inr (with_entry w (fileHeader ''./data.tar.gz'' (stream_len e ?a) (now e)) ?a)"
    by auto
  then show ?thesis
    by (simp add: writeDataArchive_def createDataArchive_eq [OF assms(2)] sub_archive_def)
qed

lemma writeTar_eq:
  assumes "control_ok e t" "data_ok e t"
  shows "writeTar e t NewWriter c = Inr (append_entries NewWriter (package_entries e t c), written e t)"
proof -
  have d: "writeDebianBinary NewWriter (now e) = Inr (append_entries NewWriter [debian_binary_entry (now e)])"
    by (simp add: writeDebianBinary_New) (simp add: append_entries_def NewWriter_def debian_binary_entry_def)
  show ?thesis
    using assms
    by (simp add: writeTar_def d writeControlArchive_eq writeDataArchive_eq data_ok_sorted
        data_entries_sorted package_entries_def written_def)
qed

lemma Format_tests [simp]:
  "FormatTar AND NOT formatGZip = FormatTar" "FormatTarGZip AND NOT formatGZip = FormatTar"
  "FormatTar AND formatGZip = 0" "FormatTarGZip AND formatGZip \<noteq> 0"
  by (simp_all add: FormatTar_def FormatTarGZip_def formatGZip_def)

lemma Write_eq:
  assumes "control_ok e t" "data_ok e t"
  shows "Write e t FormatTar = Inr (Tar (package_entries e t True), written e t)"
    and "Write e t FormatTarGZip
           = Inr (Gzip BestCompression (Tar (package_entries e t False)), written e t)"
  using assms by (simp_all add: Write_def writeTar_eq tw_Close_def) (simp_all add: NewWriter_def)

lemma Write_missing:
  assumes "\<not> set mandatoryFields \<subseteq> dom (t_fields t)"
  shows "\<exists>err. Write e t format = Inl err"
proof -
  have wc: "\<exists>err. writeControlArchive e t w c m = Inl err" for w c m
    using createControlArchive_missing [OF assms, of e c m]
    by (auto simp: writeControlArchive_def split: sum.splits)
  have wt: "\<exists>err. writeTar e t w c = Inl err" for w c
  proof (cases "writeDebianBinary w (now e)")
    case (Inl a)
    then show ?thesis by (simp add: writeTar_def)
  next
    case (Inr w1)
    from wc obtain err where "writeControlArchive e t w1 c (now e) = Inl err" by blast
    with Inr show ?thesis by (simp add: writeTar_def)
  qed
  from wt obtain err where "writeTar e t NewWriter (format AND formatGZip = 0) = Inl err"
    by blast
  then show ?thesis
    by (simp add: Write_def)
qed

section \<open>Example packages\<close>

definition example_fields :: "(string \<times> string) list" where
  "example_fields =
     [(''Package'', ''foo''), (''Version'', ''1.2.3''), (''Architecture'', ''all''),
      (''Maintainer'', ''A <a@b.c>''), (''Description'', ''d'')]"

definition example_pkg :: T where
  "example_pkg = New\<lparr>t_fields := map_of example_fields\<rparr>"

definition example_env :: env where
  "example_env =
     \<lparr>now = 0, encode = (\<lambda>s. []), range_fields = example_fields,
      range_scripts = [], range_files = []\<rparr>"

definition extra_fields_a :: "(string \<times> string) list" where
  "extra_fields_a = example_fields @ [(''Depends'', ''libc''), (''Homepage'', ''h'')]"

definition extra_fields_b :: "(string \<times> string) list" where
  "extra_fields_b = example_fields @ [(''Homepage'', ''h''), (''Depends'', ''libc'')]"

definition extra_pkg :: T where
  "extra_pkg = New\<lparr>t_fields := map_of extra_fields_a\<rparr>"

lemmas Control_defs =
  ControlPackage_def ControlVersion_def ControlArch_def ControlMaintainer_def ControlDesc_def

lemma set_mandatoryFields:
  "set mandatoryFields = {''Package'', ''Version'', ''Architecture'', ''Maintainer'', ''Description''}"
  by (simp add: mandatoryFields_def Control_defs)

lemma example_control_ok: "control_ok example_env example_pkg"
  by (simp add: control_ok_def example_env_def example_pkg_def New_def example_fields_def
      set_mandatoryFields)

lemma example_data_ok: "data_ok example_env example_pkg"
  by (simp add: data_ok_def example_env_def example_pkg_def New_def is_range_def)

lemma writeTar_levels:
  assumes "writeTar e t NewWriter c = Inr (w, t')"
  shows "\<exists>ctl dat szc szd.
     tw_entries w =
       [(fileHeader ''./debian-binary'' 4 (now e), Bytes (''2.0'' @ [CHR 0x0A])),
        (fileHeader ''./control.tar.gz'' szc (now e), Gzip (compressionLevel c) (Tar ctl)),
        (fileHeader ''./data.tar.gz'' szd (now e), Gzip (compressionLevel c) (Tar dat))]"
  using writeTar_shape [OF assms] by blast

text \<open>
  C10. When \<open>Write\<close> succeeds with \<open>FormatTarGZip\<close>, the stream is a gzip member at
  best compression around a tar archive whose control and data sub-archives are gzip
  members written with \<open>NoCompression\<close>; with \<open>FormatTar\<close> the outer tar archive is
  bare and both sub-archives are gzip members written with \<open>BestCompression\<close>.
\<close>

theorem C10_inner_compression:
  "(Write e t FormatTarGZip = Inr (s, t') \<longrightarrow>
      (\<exists>ctl dat szc szd. s = Gzip BestCompression (Tar
         [(fileHeader ''./debian-binary'' 4 (now e), Bytes (''2.0'' @ [CHR 0x0A])),
          (fileHeader ''./control.tar.gz'' szc (now e), Gzip NoCompression (Tar ctl)),
          (fileHeader ''./data.tar.gz'' szd (now e), Gzip NoCompression (Tar dat))])))
   \<and> (Write e t FormatTar = Inr (s, t') \<longrightarrow>
      (\<exists>ctl dat szc szd. s = Tar
         [(fileHeader ''./debian-binary'' 4 (now e), Bytes (''2.0'' @ [CHR 0x0A])),
          (fileHeader ''./control.tar.gz'' szc (now e), Gzip BestCompression (Tar ctl)),
          (fileHeader ''./data.tar.gz'' szd (now e), Gzip BestCompression (Tar dat))]))"
proof (intro conjI impI)
  assume a: "Write e t FormatTarGZip = Inr (s, t')"
  then obtain w where w: "writeTar e t NewWriter False = Inr (w, t')"
    and s: "s = Gzip BestCompression (Tar (tw_entries w))"
    by (auto simp: Write_def tw_Close_def split: sum.splits if_splits)
  from writeTar_levels [OF w] s show "\<exists>ctl dat szc szd. s = Gzip BestCompression (Tar
         [(fileHeader ''./debian-binary'' 4 (now e), Bytes (''2.0'' @ [CHR 0x0A])),
          (fileHeader ''./control.tar.gz'' szc (now e), Gzip NoCompression (Tar ctl)),
          (fileHeader ''./data.tar.gz'' szd (now e), Gzip NoCompression (Tar dat))])"
    by (simp add: compressionLevel_def)
next
  assume a: "Write e t FormatTar = Inr (s, t')"
  then obtain w where w: "writeTar e t NewWriter True = Inr (w, t')"
    and s: "s = Tar (tw_entries w)"
    by (auto simp: Write_def tw_Close_def split: sum.splits if_splits)
  from writeTar_levels [OF w] s show "\<exists>ctl dat szc szd. s = Tar
         [(fileHeader ''./debian-binary'' 4 (now e), Bytes (''2.0'' @ [CHR 0x0A])),
          (fileHeader ''./control.tar.gz'' szc (now e), Gzip BestCompression (Tar ctl)),
          (fileHeader ''./data.tar.gz'' szd (now e), Gzip BestCompression (Tar dat))]"
    by (simp add: compressionLevel_def)
qed

theorem C10_inner_compression_witness:
  "Write example_env example_pkg FormatTarGZip
     = Inr (Gzip BestCompression (Tar (package_entries example_env example_pkg False)),
            written example_env example_pkg)
   \<and> (\<exists>ctl dat szc szd.
        Gzip BestCompression (Tar (package_entries example_env example_pkg False))
          = Gzip BestCompression (Tar
         [(fileHeader ''./debian-binary'' 4 0, Bytes (''2.0'' @ [CHR 0x0A])),
          (fileHeader ''./control.tar.gz'' szc 0, Gzip NoCompression (Tar ctl)),
          (fileHeader ''./data.tar.gz'' szd 0, Gzip NoCompression (Tar dat))]))
   \<and> Write example_env example_pkg FormatTar
     = Inr (Tar (package_entries example_env example_pkg True), written example_env example_pkg)
   \<and> (\<exists>ctl dat szc szd.
        Tar (package_entries example_env example_pkg True)
          = Tar
         [(fileHeader ''./debian-binary'' 4 0, Bytes (''2.0'' @ [CHR 0x0A])),
          (fileHeader ''./control.tar.gz'' szc 0, Gzip BestCompression (Tar ctl)),
          (fileHeader ''./data.tar.gz'' szd 0, Gzip BestCompression (Tar dat))])"
proof -
  note w = Write_eq [OF example_control_ok example_data_ok]
  have n: "now example_env = 0" by (simp add: example_env_def)
  from C10_inner_compression [of example_env example_pkg
      "Gzip BestCompression (Tar (package_entries example_env example_pkg False))"
      "written example_env example_pkg"]
    C10_inner_compression [of example_env example_pkg
      "Tar (package_entries example_env example_pkg True)"
      "written example_env example_pkg"]
  show ?thesis
    unfolding n using w by blast
qed

lemma is_range_empty: "is_range Map.empty kvs \<longleftrightarrow> kvs = []"
  by (cases kvs) (auto simp: is_range_def fun_eq_iff)

text \<open>
  C5. If a mandatory field is absent from the field map, producing the control
  sub-archive fails, and so does \<open>Write\<close>. Writing a package whose field map holds
  exactly the five mandatory fields, with no conffile, script or file, succeeds in both
  formats.
\<close>

theorem C5_mandatory_fields:
  "(\<not> set mandatoryFields \<subseteq> dom (t_fields t) \<longrightarrow>
      (\<exists>err. createControlArchive e t compress m = Inl err)
      \<and> (\<exists>err. Write e t format = Inl err))
   \<and> (dom (t_fields t) = set mandatoryFields \<and> t_conffiles t = []
        \<and> t_scripts t = Map.empty \<and> t_files t = Map.empty
        \<and> is_range (t_scripts t) (range_scripts e) \<and> is_range (t_files t) (range_files e) \<longrightarrow>
      (\<exists>s t'. Write e t FormatTar = Inr (s, t'))
      \<and> (\<exists>s t'. Write e t FormatTarGZip = Inr (s, t')))"
proof (intro conjI impI)
  assume "\<not> set mandatoryFields \<subseteq> dom (t_fields t)"
  then show "\<exists>err. createControlArchive e t compress m = Inl err"
    "\<exists>err. Write e t format = Inl err"
    by (rule createControlArchive_missing, rule Write_missing)
next
  assume a: "dom (t_fields t) = set mandatoryFields \<and> t_conffiles t = []
        \<and> t_scripts t = Map.empty \<and> t_files t = Map.empty
        \<and> is_range (t_scripts t) (range_scripts e) \<and> is_range (t_files t) (range_files e)"
  then have r: "range_scripts e = []" "range_files e = []"
    by (auto simp: is_range_empty)
  from a have sub: "set mandatoryFields \<subseteq> dom (t_fields t)" by blast
  from a have emp: "t_files t = Map.empty" by blast
  have "control_ok e t" using sub r by (simp add: control_ok_def)
  moreover have "data_ok e t" using emp r by (simp add: data_ok_def is_range_def)
  ultimately show "\<exists>s t'. Write e t FormatTar = Inr (s, t')"
    "\<exists>s t'. Write e t FormatTarGZip = Inr (s, t')"
    by (simp_all add: Write_eq)
qed

lemma example_pkg_dom: "dom (t_fields example_pkg) = set mandatoryFields"
  by (auto simp: example_pkg_def New_def example_fields_def set_mandatoryFields split: if_splits)

theorem C5_mandatory_fields_witness:
  "\<not> set mandatoryFields \<subseteq> dom (t_fields New)
   \<and> (\<exists>err. createControlArchive example_env New True 0 = Inl err)
   \<and> (\<exists>err. Write example_env New FormatTar = Inl err)
   \<and> dom (t_fields example_pkg) = set mandatoryFields \<and> t_conffiles example_pkg = []
   \<and> t_scripts example_pkg = Map.empty \<and> t_files example_pkg = Map.empty
   \<and> is_range (t_scripts example_pkg) (range_scripts example_env)
   \<and> is_range (t_files example_pkg) (range_files example_env)
   \<and> (\<exists>s t'. Write example_env example_pkg FormatTar = Inr (s, t'))
   \<and> (\<exists>s t'. Write example_env example_pkg FormatTarGZip = Inr (s, t'))"
proof -
  have 1: "\<not> set mandatoryFields \<subseteq> dom (t_fields New)"
    by (simp add: New_def set_mandatoryFields)
  have 2: "t_conffiles example_pkg = []" "t_scripts example_pkg = Map.empty"
    "t_files example_pkg = Map.empty"
    "is_range (t_scripts example_pkg) (range_scripts example_env)"
    "is_range (t_files example_pkg) (range_files example_env)"
    by (simp_all add: example_pkg_def New_def example_env_def is_range_def)
  show ?thesis
    using C5_mandatory_fields [of New example_env True 0 FormatTar]
      C5_mandatory_fields [of example_pkg example_env True 0 FormatTar]
      1 2 example_pkg_dom
    by simp
qed

section \<open>C4\<close>

definition extra_env_a :: env where
  "extra_env_a = example_env\<lparr>range_fields := extra_fields_a\<rparr>"

definition extra_env_b :: env where
  "extra_env_b = example_env\<lparr>range_fields := extra_fields_b\<rparr>"

lemma sorted_sort_mandatory: "sorted (sort mandatoryFields)"
  by simp

lemma extra_ranges:
  "is_range (t_fields extra_pkg) (range_fields extra_env_a)"
  "is_range (t_fields extra_pkg) (range_fields extra_env_b)"
  by (auto simp: is_range_def extra_pkg_def New_def extra_env_a_def extra_env_b_def
      extra_fields_a_def extra_fields_b_def example_fields_def fun_eq_iff)

lemma extra_mandatory: "set mandatoryFields \<subseteq> dom (t_fields extra_pkg)"
  by (simp add: extra_pkg_def New_def extra_fields_a_def example_fields_def set_mandatoryFields)

text \<open>
  C4, as stated, at a package with the fields Depends and Homepage next to the
  mandatory five: both orders are orders in which the \<open>range\<close> over the field map may
  yield its entries, and the control files written differ.
\<close>

theorem C4_control_order_counterexample:
  "is_range (t_fields extra_pkg) (range_fields extra_env_a)
   \<and> is_range (t_fields extra_pkg) (range_fields extra_env_b)
   \<and> control_bytes extra_env_a extra_pkg \<noteq> control_bytes extra_env_b extra_pkg"
proof -
  have "remaining_lines extra_fields_a \<noteq> remaining_lines extra_fields_b"
    by (simp add: remaining_lines_def extra_fields_a_def extra_fields_b_def example_fields_def
        set_mandatoryFields control_line_def)
  then have "control_bytes extra_env_a extra_pkg \<noteq> control_bytes extra_env_b extra_pkg"
    by (simp add: control_bytes_eq [OF extra_mandatory] extra_env_a_def extra_env_b_def)
  with extra_ranges show ?thesis by simp
qed

lemma is_range_mset:
  assumes "is_range m kvs" "is_range m kvs'"
  shows "mset kvs = mset kvs'"
proof -
  have d: "distinct kvs" "distinct kvs'"
    using assms by (auto simp: is_range_def distinct_map)
  have "set kvs = set kvs'"
    using is_range_lookup [OF assms(1)] is_range_lookup [OF assms(2)] by auto
  with d show ?thesis by (simp add: set_eq_iff_mset_eq_distinct)
qed

text \<open>
  C4, amended. For a package with the five mandatory fields, the control file written
  holds the mandatory fields first, in their fixed order, each as \<open>Name: value\<close> and a
  newline, followed by every remaining field, once each, in the order in which the
  \<open>range\<close> over the field map yields them. That order is not fixed: for two orders the
  remaining lines are the same up to their order.
\<close>

theorem C4_control_order:
  assumes "set mandatoryFields \<subseteq> dom (t_fields t)"
    and "is_range (t_fields t) (range_fields e)"
    and "tw_pending w = 0"
  shows "\<exists>rest bytes.
      rest = filter (\<lambda>(f, c). f \<notin> set mandatoryFields) (range_fields e)
    \<and> bytes = concat (map (\<lambda>f. control_line f (the (t_fields t f))) mandatoryFields)
              @ concat (map (\<lambda>(f, c). control_line f c) rest)
    \<and> addControl e t w m
        = Inr \<lparr>tw_entries = tw_entries w @ [(fileHeader ''./control'' (int (length bytes)) m, Bytes bytes)],
               tw_pending = 0\<rparr>
    \<and> distinct (map fst rest)
    \<and> set rest = {(f, c). t_fields t f = Some c \<and> f \<notin> set mandatoryFields}
    \<and> (is_range (t_fields t) (range_fields e') \<longrightarrow>
         mset (filter (\<lambda>(f, c). f \<notin> set mandatoryFields) (range_fields e')) = mset rest)"
proof -
  let ?rest = "filter (\<lambda>(f, c). f \<notin> set mandatoryFields) (range_fields e)"
  have 1: "distinct (map fst ?rest)"
    using assms(2) by (simp add: is_range_def distinct_map_filter)
  have 2: "set ?rest = {(f, c). t_fields t f = Some c \<and> f \<notin> set mandatoryFields}"
    using is_range_lookup [OF assms(2)] by auto
  have 3: "mset (filter (\<lambda>(f, c). f \<notin> set mandatoryFields) (range_fields e')) = mset ?rest"
    if "is_range (t_fields t) (range_fields e')"
    using is_range_mset [OF that assms(2)] by (metis mset_filter)
  show ?thesis
    using 1 2 3 addControl_eq [OF assms(1,3), of e m]
    by (simp add: mandatory_lines_def remaining_lines_def append_entries_def del: append_entries_simps(4))
qed

theorem C4_control_order_witness:
  "set mandatoryFields \<subseteq> dom (t_fields extra_pkg)
   \<and> is_range (t_fields extra_pkg) (range_fields extra_env_b)
   \<and> tw_pending NewWriter = 0
   \<and> addControl extra_env_b extra_pkg NewWriter 0
      = Inr \<lparr>tw_entries =
               [(fileHeader ''./control'' 109 0,
                 Bytes (''Package: foo'' @ [CHR 0x0A] @ ''Version: 1.2.3'' @ [CHR 0x0A]
                   @ ''Architecture: all'' @ [CHR 0x0A] @ ''Maintainer: A <a@b.c>'' @ [CHR 0x0A]
                   @ ''Description: d'' @ [CHR 0x0A] @ ''Homepage: h'' @ [CHR 0x0A]
                   @ ''Depends: libc'' @ [CHR 0x0A]))],
             tw_pending = 0\<rparr>"
proof -
  have p: "tw_pending NewWriter = 0" by (simp add: NewWriter_def)
  have f: "t_fields extra_pkg = map_of extra_fields_a" by (simp add: extra_pkg_def New_def)
  from C4_control_order [OF extra_mandatory extra_ranges(2) p, of 0 extra_env_b]
  show ?thesis
    using extra_mandatory extra_ranges(2) p
    by (simp add: f extra_env_b_def extra_fields_a_def extra_fields_b_def example_fields_def
        set_mandatoryFields mandatoryFields_def Control_defs control_line_def NewWriter_def)
qed

section \<open>Lexical path operations (package path)\<close>

text \<open>
  \<open>path.Clean\<close>, following the loop of the library: \<open>p\<close> is the part of the path
  still to be read, \<open>out\<close> the buffer written so far, \<open>dotdot\<close> the index in \<open>out\<close>
  below which \<open>..\<close> must not backtrack.
\<close>

definition is_dot :: "string \<Rightarrow> bool" where
  "is_dot p \<longleftrightarrow> p = ''.'' \<or> HasPrefix p ''./''"

definition is_dotdot :: "string \<Rightarrow> bool" where
  "is_dotdot p \<longleftrightarrow> p = ''..'' \<or> HasPrefix p ''../''"

text \<open>The inner loop of the \<open>..\<close> case: \<open>for out.w > dotdot && out.index(out.w) != '/'\<close>.\<close>

fun back_scan :: "string \<Rightarrow> nat \<Rightarrow> nat \<Rightarrow> nat" where
  "back_scan out dotdot 0 = 0"
| "back_scan out dotdot (Suc w) =
     (if Suc w > dotdot \<and> out ! Suc w \<noteq> CHR ''/'' then back_scan out dotdot w else Suc w)"

definition backtrack :: "string \<Rightarrow> nat \<Rightarrow> string" where
  "backtrack out dotdot = take (back_scan out dotdot (length out - 1)) out"

lemma element_shorter:
  "p \<noteq> [] \<Longrightarrow> hd p \<noteq> CHR ''/'' \<Longrightarrow> length (dropWhile (\<lambda>c. c \<noteq> CHR ''/'') p) < length p"
  by (cases p) (auto simp: le_imp_less_Suc length_dropWhile_le)

function clean_loop :: "bool \<Rightarrow> string \<Rightarrow> string \<Rightarrow> nat \<Rightarrow> string" where
  "clean_loop rooted p out dotdot =
     (if p = [] then out
      else if hd p = CHR ''/'' then clean_loop rooted (tl p) out dotdot
      else if is_dot p then clean_loop rooted (tl p) out dotdot
      else if is_dotdot p then
        (if length out > dotdot then clean_loop rooted (drop 2 p) (backtrack out dotdot) dotdot
         else if \<not> rooted then
           (let out' = (if length out > 0 then out @ ''/'' else out) @ ''..''
            in clean_loop rooted (drop 2 p) out' (length out'))
         else clean_loop rooted (drop 2 p) out dotdot)
      else
        (let out' = (if rooted \<and> length out \<noteq> 1 \<or> \<not> rooted \<and> length out \<noteq> 0
                     then out @ ''/'' else out)
         in clean_loop rooted (dropWhile (\<lambda>c. c \<noteq> CHR ''/'') p)
              (out' @ takeWhile (\<lambda>c. c \<noteq> CHR ''/'') p) dotdot))"
  by pat_completeness auto
termination
proof -
  have element: "length (dropWhile (\<lambda>c. c \<noteq> CHR ''/'') p) < length p"
    if "p \<noteq> []" "hd p \<noteq> CHR ''/''" for p :: string
    using that by (cases p) (auto simp: le_imp_less_Suc length_dropWhile_le)
  show ?thesis
    by (relation "measure (\<lambda>(rooted, p, out, dotdot). length p)")
      (auto simp: is_dotdot_def HasPrefix_def prefix_def element)
qed

declare clean_loop.simps [simp del]

definition Clean :: "string \<Rightarrow> string" where
  "Clean path =
     (if path = [] then ''.''
      else
        (let rooted = (hd path = CHR ''/'');
             out = (if rooted then clean_loop rooted (tl path) ''/'' 1
                    else clean_loop rooted path [] 0)
         in if out = [] then ''.'' else out))"

definition IsAbs :: "string \<Rightarrow> bool" where
  "IsAbs path \<longleftrightarrow> length path > 0 \<and> path ! 0 = CHR ''/''"



text \<open>\<open>path.Base\<close>: the last element, trailing slashes removed first.\<close>

definition Base :: "string \<Rightarrow> string" where
  "Base path =
     (if path = [] then ''.''
      else
        (let p1 = rev (dropWhile (\<lambda>c. c = CHR ''/'') (rev path));
             p2 = rev (takeWhile (\<lambda>c. c \<noteq> CHR ''/'') (rev p1))
         in if p2 = [] then ''/'' else p2))"


section \<open>File information (io/fs, archive/tar)\<close>

type_synonym FileMode = "32 word"

definition ModeDir :: FileMode where "ModeDir = 0x80000000"
definition ModeSymlink :: FileMode where "ModeSymlink = 0x8000000"
definition ModeDevice :: FileMode where "ModeDevice = 0x4000000"
definition ModeNamedPipe :: FileMode where "ModeNamedPipe = 0x2000000"
definition ModeSocket :: FileMode where "ModeSocket = 0x1000000"
definition ModeSetuid :: FileMode where "ModeSetuid = 0x800000"
definition ModeSetgid :: FileMode where "ModeSetgid = 0x400000"
definition ModeCharDevice :: FileMode where "ModeCharDevice = 0x200000"
definition ModeSticky :: FileMode where "ModeSticky = 0x100000"
definition ModeIrregular :: FileMode where "ModeIrregular = 0x80000"
definition ModePerm :: FileMode where "ModePerm = 0x1FF"

definition ModeType :: FileMode where
  "ModeType = ModeDir OR ModeSymlink OR ModeNamedPipe OR ModeSocket OR ModeDevice
     OR ModeCharDevice OR ModeIrregular"

definition IsRegular :: "FileMode \<Rightarrow> bool" where
  "IsRegular m \<longleftrightarrow> m AND ModeType = 0"

definition IsDir :: "FileMode \<Rightarrow> bool" where
  "IsDir m \<longleftrightarrow> m AND ModeDir \<noteq> 0"

definition Perm :: "FileMode \<Rightarrow> FileMode" where
  "Perm m = m AND ModePerm"

text \<open>
  An \<open>os.FileInfo\<close> is modelled by what its methods return. \<open>fi_Sys\<close> is the header
  when the value comes from \<open>tar.Header.FileInfo\<close>; the platform's own stat data is
  not modelled.
\<close>

record FileInfo =
  fi_Name :: string
  fi_Size :: int
  fi_Mode :: FileMode
  fi_ModTime :: int
  fi_IsDir :: bool
  fi_Sys :: "Header option"

text \<open>The mode bits of a tar header: 04000, 02000, 01000 and the file type in 0170000.\<close>

definition c_ISUID :: int where "c_ISUID = 2048"
definition c_ISGID :: int where "c_ISGID = 1024"
definition c_ISVTX :: int where "c_ISVTX = 512"
definition c_ISDIR :: int where "c_ISDIR = 16384"
definition c_ISFIFO :: int where "c_ISFIFO = 4096"
definition c_ISLNK :: int where "c_ISLNK = 40960"
definition c_ISBLK :: int where "c_ISBLK = 24576"
definition c_ISCHR :: int where "c_ISCHR = 8192"
definition c_ISSOCK :: int where "c_ISSOCK = 49152"

definition FileInfoHeader :: "FileInfo \<Rightarrow> string \<Rightarrow> error + Header" where
  "FileInfoHeader fi link =
     (let fm = fi_Mode fi;
          h = zeroHeader\<lparr>Name := fi_Name fi, ModTime := fi_ModTime fi, Mode := uint (Perm fm)\<rparr>;
          typed =
            (if IsRegular fm then Inr (h\<lparr>Typeflag := TypeReg, Size := fi_Size fi\<rparr>)
             else if fi_IsDir fi then Inr (h\<lparr>Typeflag := TypeDir, Name := Name h @ ''/''\<rparr>)
             else if fm AND ModeSymlink \<noteq> 0 then Inr (h\<lparr>Typeflag := TypeSymlink, Linkname := link\<rparr>)
             else if fm AND ModeDevice \<noteq> 0 then
               (if fm AND ModeCharDevice \<noteq> 0 then Inr (h\<lparr>Typeflag := TypeChar\<rparr>)
                else Inr (h\<lparr>Typeflag := TypeBlock\<rparr>))
             else if fm AND ModeNamedPipe \<noteq> 0 then Inr (h\<lparr>Typeflag := TypeFifo\<rparr>)
             else if fm AND ModeSocket \<noteq> 0 then Inl (Error ''archive/tar: sockets not supported'')
             else Inl (Error ''archive/tar: unknown file mode''))
      in case typed of
           Inl err \<Rightarrow> Inl err
         | Inr h1 \<Rightarrow>
             (let h2 = (if fm AND ModeSetuid \<noteq> 0 then h1\<lparr>Mode := Mode h1 OR c_ISUID\<rparr> else h1);
                  h3 = (if fm AND ModeSetgid \<noteq> 0 then h2\<lparr>Mode := Mode h2 OR c_ISGID\<rparr> else h2);
                  h4 = (if fm AND ModeSticky \<noteq> 0 then h3\<lparr>Mode := Mode h3 OR c_ISVTX\<rparr> else h3)
              in case fi_Sys fi of
                   None \<Rightarrow> Inr h4
                 | Some sys \<Rightarrow>
                     (let h5 = h4\<lparr>Uname := Uname sys, Gname := Gname sys\<rparr>
                      in if Typeflag sys = TypeLink
                         then Inr (h5\<lparr>Typeflag := TypeLink, Size := 0, Linkname := Linkname sys\<rparr>)
                         else Inr h5)))"

text \<open>\<open>tar.Header.FileInfo\<close>: the mode of the header with the bits of its type.\<close>

definition header_mode :: "Header \<Rightarrow> FileMode" where
  "header_mode h =
     (let m0 = Perm (word_of_int (Mode h));
          m1 = (if Mode h AND c_ISUID \<noteq> 0 then m0 OR ModeSetuid else m0);
          m2 = (if Mode h AND c_ISGID \<noteq> 0 then m1 OR ModeSetgid else m1);
          m3 = (if Mode h AND c_ISVTX \<noteq> 0 then m2 OR ModeSticky else m2);
          t = (word_of_int (Mode h) :: FileMode) AND NOT 0xFFF;
          m4 = (if t = word_of_int c_ISDIR then m3 OR ModeDir
                else if t = word_of_int c_ISFIFO then m3 OR ModeNamedPipe
                else if t = word_of_int c_ISLNK then m3 OR ModeSymlink
                else if t = word_of_int c_ISBLK then m3 OR ModeDevice
                else if t = word_of_int c_ISCHR then m3 OR ModeDevice OR ModeCharDevice
                else if t = word_of_int c_ISSOCK then m3 OR ModeSocket
                else m3)
      in if Typeflag h = TypeSymlink then m4 OR ModeSymlink
         else if Typeflag h = TypeChar then m4 OR ModeDevice OR ModeCharDevice
         else if Typeflag h = TypeBlock then m4 OR ModeDevice
         else if Typeflag h = TypeDir then m4 OR ModeDir
         else if Typeflag h = TypeFifo then m4 OR ModeNamedPipe
         else m4)"

definition Header_FileInfo :: "Header \<Rightarrow> FileInfo" where
  "Header_FileInfo h =
     \<lparr>fi_Name = (if IsDir (header_mode h) then Base (Clean (Name h)) else Base (Name h)),
      fi_Size = Size h,
      fi_Mode = header_mode h,
      fi_ModTime = ModTime h,
      fi_IsDir = IsDir (header_mode h),
      fi_Sys = Some h\<rparr>"


lemma file_info:
  "0 \<le> n \<Longrightarrow> FileInfoHeader (Header_FileInfo (fileHeader name n m)) link
     = Inr ((fileHeader (Base name) n m)\<lparr>Format := tar_FormatUnknown\<rparr>)"
  by (simp add: FileInfoHeader_def Header_FileInfo_def fileHeader_def specialHeader_def
      header_mode_def Let_def zeroHeader_def IsRegular_def IsDir_def Perm_def ModeType_def
      ModeDir_def ModeSymlink_def ModeDevice_def ModeNamedPipe_def ModeSocket_def ModeSetuid_def
      ModeSetgid_def ModeCharDevice_def ModeSticky_def ModeIrregular_def ModePerm_def
      c_ISUID_def c_ISGID_def c_ISVTX_def c_ISDIR_def c_ISFIFO_def c_ISLNK_def c_ISBLK_def
      c_ISCHR_def c_ISSOCK_def Typeflag_defs)



lemma backtrack_prefix: "prefix (backtrack out dotdot) out"
  by (simp add: backtrack_def take_is_prefix)



section \<open>The package (ipk.go)\<close>

text \<open>\<open>^[[:alpha:]-]+$\<close> and \<open>^[[:lower:]]+$\<close>, on bytes.\<close>

definition is_lower :: "char \<Rightarrow> bool" where
  "is_lower c \<longleftrightarrow> CHR ''a'' \<le> c \<and> c \<le> CHR ''z''"

definition is_upper :: "char \<Rightarrow> bool" where
  "is_upper c \<longleftrightarrow> CHR ''A'' \<le> c \<and> c \<le> CHR ''Z''"

definition allowedFieldNames :: "string \<Rightarrow> bool" where
  "allowedFieldNames name \<longleftrightarrow>
     name \<noteq> [] \<and> list_all (\<lambda>c. is_lower c \<or> is_upper c \<or> c = CHR ''-'') name"

definition allowedScriptNames :: "string \<Rightarrow> bool" where
  "allowedScriptNames name \<longleftrightarrow> name \<noteq> [] \<and> list_all is_lower name"

text \<open>
  \<open>strings.TrimSpace\<close> removes leading and trailing Unicode white space. On the
  bytes of the string, a white-space rune is one of these UTF-8 sequences: the six
  ASCII ones, U+0085, U+00A0, U+1680, U+2000 to U+200A, U+2028, U+2029, U+202F,
  U+205F and U+3000.
\<close>

definition space_seqs :: "string list" where
  "space_seqs =
     [[CHR 0x09], [CHR 0x0A], [CHR 0x0B], [CHR 0x0C], [CHR 0x0D], [CHR 0x20],
      [CHR 0xC2, CHR 0x85], [CHR 0xC2, CHR 0xA0], [CHR 0xE1, CHR 0x9A, CHR 0x80],
      [CHR 0xE2, CHR 0x80, CHR 0x80], [CHR 0xE2, CHR 0x80, CHR 0x81],
      [CHR 0xE2, CHR 0x80, CHR 0x82], [CHR 0xE2, CHR 0x80, CHR 0x83],
      [CHR 0xE2, CHR 0x80, CHR 0x84], [CHR 0xE2, CHR 0x80, CHR 0x85],
      [CHR 0xE2, CHR 0x80, CHR 0x86], [CHR 0xE2, CHR 0x80, CHR 0x87],
      [CHR 0xE2, CHR 0x80, CHR 0x88], [CHR 0xE2, CHR 0x80, CHR 0x89],
      [CHR 0xE2, CHR 0x80, CHR 0x8A], [CHR 0xE2, CHR 0x80, CHR 0xA8],
      [CHR 0xE2, CHR 0x80, CHR 0xA9], [CHR 0xE2, CHR 0x80, CHR 0xAF],
      [CHR 0xE2, CHR 0x81, CHR 0x9F], [CHR 0xE3, CHR 0x80, CHR 0x80]]"

definition leading_space :: "string \<Rightarrow> string option" where
  "leading_space s = find (\<lambda>w. prefix w s) space_seqs"

definition trailing_space :: "string \<Rightarrow> string option" where
  "trailing_space s = find (\<lambda>w. suffix w s) space_seqs"

lemma space_seqs_nonempty: "w \<in> set space_seqs \<Longrightarrow> w \<noteq> []"
  by (auto simp: space_seqs_def)

lemma leading_space_shorter:
  "leading_space s = Some w \<Longrightarrow> length (drop (length w) s) < length s"
proof -
  assume "leading_space s = Some w"
  then have "w \<in> set space_seqs" "prefix w s"
    by (auto simp: leading_space_def find_Some_iff)
  with space_seqs_nonempty [of w] show ?thesis
    by (cases s) (auto simp: prefix_def)
qed

lemma trailing_space_shorter:
  "trailing_space s = Some w \<Longrightarrow> length (take (length s - length w) s) < length s"
proof -
  assume "trailing_space s = Some w"
  then have "w \<in> set space_seqs" "suffix w s"
    by (auto simp: trailing_space_def find_Some_iff)
  with space_seqs_nonempty [of w] show ?thesis
    by (auto simp: suffix_def)
qed

function TrimLeft :: "string \<Rightarrow> string" where
  "TrimLeft s =
     (case leading_space s of None \<Rightarrow> s | Some w \<Rightarrow> TrimLeft (drop (length w) s))"
  by pat_completeness auto
termination
  by (relation "measure length") (use leading_space_shorter in auto)

function TrimRight :: "string \<Rightarrow> string" where
  "TrimRight s =
     (case trailing_space s of None \<Rightarrow> s | Some w \<Rightarrow> TrimRight (take (length s - length w) s))"
  by pat_completeness auto
termination
  by (relation "measure length") (use trailing_space_shorter in auto)

declare TrimLeft.simps [simp del] TrimRight.simps [simp del]

definition TrimSpace :: "string \<Rightarrow> string" where
  "TrimSpace s = TrimRight (TrimLeft s)"

text \<open>
  The methods that change the package return the package as the call left it, with
  the error (\<open>None\<close> for \<open>nil\<close>).
\<close>

definition AddField :: "T \<Rightarrow> string \<Rightarrow> string \<Rightarrow> T \<times> error option" where
  "AddField t name content =
     (if \<not> allowedFieldNames name then (t, Some (Error ''Invalid field name''))
      else
        (let content = TrimSpace content
         in if CHR 0x0A \<in> set content
            then (t, Some (Error ''Content contains newline character''))
            else if t_fields t name \<noteq> None then (t, Some (Error ''Field already exists''))
            else (t\<lparr>t_fields := (t_fields t)(name \<mapsto> content)\<rparr>, None)))"

definition GetField :: "T \<Rightarrow> string \<Rightarrow> string \<times> bool" where
  "GetField t name = (case t_fields t name of None \<Rightarrow> ([], False) | Some content \<Rightarrow> (content, True))"

definition AddConffile :: "T \<Rightarrow> string \<Rightarrow> T \<times> error option" where
  "AddConffile t pathname =
     (let cleaned = Clean pathname
      in if \<not> IsAbs cleaned then (t, Some (Error ''Not an absolute pathname''))
         else if cleaned = ''/'' then (t, Some (Error ''Root not allowed''))
         else (t\<lparr>t_conffiles := t_conffiles t @ [cleaned]\<rparr>, None))"

definition Conffiles :: "T \<Rightarrow> string list" where
  "Conffiles t = t_conffiles t"

text \<open>
  An \<open>io.Reader\<close> handed to the package either delivers a stream or fails; \<open>None\<close> is
  the nil reader.
\<close>

datatype reader = Reader stream | ErrReader

definition AddScript :: "env \<Rightarrow> T \<Rightarrow> string \<Rightarrow> reader option \<Rightarrow> T \<times> error option" where
  "AddScript e t name r =
     (case r of
        None \<Rightarrow> (t, Some (Error ''Nil reader supplied''))
      | Some rd \<Rightarrow>
          if name = controlName \<or> name = confName \<or> \<not> allowedScriptNames name
          then (t, Some ErrBadScriptName)
          else if t_scripts t name \<noteq> None then (t, Some (Error ''Script already exists''))
          else
            (case rd of
               ErrReader \<Rightarrow> (t, Some (Error ''Error copying script''))
             | Reader src \<Rightarrow>
                 (t\<lparr>t_scripts := (t_scripts t)(name \<mapsto>
                      \<lparr>header = zeroHeader\<lparr>Name := name, Size := stream_len e src\<rparr>,
                       data = Some (Gzip BestCompression src)\<rparr>)\<rparr>,
                  None)))"

text \<open>
  \<open>ScriptNames\<close> and \<open>FileNames\<close> collect the keys in the order of the \<open>range\<close>.
\<close>

definition ScriptNames :: "env \<Rightarrow> T \<Rightarrow> string list" where
  "ScriptNames e t = map fst (range_scripts e)"

definition FileNames :: "env \<Rightarrow> T \<Rightarrow> string list" where
  "FileNames e t = map fst (range_files e)"

definition GetScript :: "T \<Rightarrow> string \<Rightarrow> error + (stream \<times> int)" where
  "GetScript t name =
     (case t_scripts t name of
        None \<Rightarrow> Inl (Error ''Script does not exist'')
      | Some f \<Rightarrow>
          (case data f of
             None \<Rightarrow> Inl (Error ''Unable to read compressed script'')
           | Some buf \<Rightarrow>
               (case gunzip buf of
                  None \<Rightarrow> Inl (Error ''Unable to read compressed script'')
                | Some gzr \<Rightarrow> Inr (gzr, Size (header f)))))"






lemma back_scan_ge: "dotdot \<le> w \<Longrightarrow> dotdot \<le> back_scan out dotdot w"
  by (induction w) (auto simp: le_Suc_eq)

lemma backtrack_keeps:
  assumes "dotdot < length out"
  shows "take dotdot (backtrack out dotdot) = take dotdot out"
proof -
  have "dotdot \<le> back_scan out dotdot (length out - 1)"
    using assms by (intro back_scan_ge) simp
  then show ?thesis by (simp add: backtrack_def min_absorb2)
qed

lemma clean_loop_rooted:
  assumes "out \<noteq> []" "hd out = CHR ''/''" "1 \<le> dotdot"
  shows "clean_loop True p out dotdot \<noteq> [] \<and> hd (clean_loop True p out dotdot) = CHR ''/''"
  using assms
proof (induction "True" p out dotdot rule: clean_loop.induct)
  case (1 p out dotdot)
  have bt: "backtrack out dotdot \<noteq> [] \<and> hd (backtrack out dotdot) = CHR ''/''"
    if "dotdot < length out"
  proof -
    from backtrack_keeps [OF that] "1.prems" have "take 1 (backtrack out dotdot) = take 1 out"
      by (metis min.absorb1 take_take)
    with "1.prems" show ?thesis
      by (cases out; cases "backtrack out dotdot") auto
  qed
  show ?case
    using "1.hyps" "1.prems" bt
    by (subst (1 2) clean_loop.simps) (auto simp: Let_def)
qed

lemma clean_loop_unrooted:
  assumes "out = [] \<or> hd out \<noteq> CHR ''/''"
  shows "clean_loop False p out dotdot = [] \<or> hd (clean_loop False p out dotdot) \<noteq> CHR ''/''"
  using assms
proof (induction "False" p out dotdot rule: clean_loop.induct)
  case (1 p out dotdot)
  have bt: "backtrack out dotdot = [] \<or> hd (backtrack out dotdot) \<noteq> CHR ''/''"
    using "1.prems" backtrack_prefix [of out dotdot]
    by (cases out; cases "backtrack out dotdot") (auto simp: prefix_def)
  have el: "takeWhile (\<lambda>c. c \<noteq> CHR ''/'') p \<noteq> [] \<and> hd (takeWhile (\<lambda>c. c \<noteq> CHR ''/'') p) \<noteq> CHR ''/''"
    if "p \<noteq> []" "hd p \<noteq> CHR ''/''"
    using that by (cases p) auto
  show ?case
  proof (cases "p = []")
    case True
    with "1.prems" show ?thesis by (subst (1 2) clean_loop.simps) simp
  next
    case ne: False
    show ?thesis
    proof (cases "hd p = CHR ''/''")
      case True
      with ne "1.hyps"(1) "1.prems" show ?thesis by (subst (1 2) clean_loop.simps) simp
    next
      case ns: False
      show ?thesis
      proof (cases "is_dot p")
        case True
        with ne ns "1.hyps"(2) "1.prems" show ?thesis by (subst (1 2) clean_loop.simps) simp
      next
        case nd: False
        show ?thesis
        proof (cases "is_dotdot p")
          case True
          show ?thesis
          proof (cases "length out > dotdot")
            case gt: True
            with ne ns nd True "1.hyps"(3) bt show ?thesis
              by (subst (1 2) clean_loop.simps) simp
          next
            case ngt: False
            define out' where "out' = (if length out > 0 then out @ ''/'' else out) @ ''..''"
            have "out' = [] \<or> hd out' \<noteq> CHR ''/''"
              using "1.prems" by (cases out) (auto simp: out'_def)
            with ne ns nd True ngt "1.hyps"(4) [OF ne ns nd True ngt _ out'_def] show ?thesis
              by (subst (1 2) clean_loop.simps) (simp add: out'_def Let_def)
          qed
        next
          case ndd: False
          define out' where "out' = (if True \<and> length out \<noteq> 1 \<or> \<not> True \<and> length out \<noteq> 0
                     then out @ ''/'' else out)"
          define out'' where "out'' = (if False \<and> length out \<noteq> 1 \<or> \<not> False \<and> length out \<noteq> 0
                     then out @ ''/'' else out)"
          have "out'' @ takeWhile (\<lambda>c. c \<noteq> CHR ''/'') p = [] \<or> hd (out'' @ takeWhile (\<lambda>c. c \<noteq> CHR ''/'') p) \<noteq> CHR ''/''"
            using "1.prems" el [OF ne ns] by (cases out) (auto simp: out''_def)
          with ne ns nd ndd "1.hyps"(6) [OF ne ns nd ndd out''_def] show ?thesis
            by (subst (1 2) clean_loop.simps) (simp add: out''_def Let_def)
        qed
      qed
    qed
  qed
qed

lemma Clean_IsAbs: "IsAbs (Clean p) \<longleftrightarrow> IsAbs p"
proof (cases "p = []")
  case True
  then show ?thesis by (simp add: Clean_def IsAbs_def)
next
  case ne: False
  show ?thesis
  proof (cases "hd p = CHR ''/''")
    case True
    from clean_loop_rooted [of "''/''" 1 "tl p"]
    have "clean_loop True (tl p) ''/'' 1 \<noteq> [] \<and> hd (clean_loop True (tl p) ''/'' 1) = CHR ''/''"
      by simp
    with ne True show ?thesis
      by (auto simp: Clean_def IsAbs_def Let_def hd_conv_nth)
  next
    case False
    from clean_loop_unrooted [of "[]" p 0]
    have "clean_loop False p [] 0 = [] \<or> hd (clean_loop False p [] 0) \<noteq> CHR ''/''"
      by simp
    with ne False show ?thesis
      by (auto simp: Clean_def IsAbs_def Let_def hd_conv_nth)
  qed
qed

text \<open>
  C8. \<open>AddConffile\<close> returns an error and the package unchanged for the empty string,
  for every relative path and for every path whose cleaned form is the root. For every
  other path it appends the lexically cleaned path to the conffile list, also when
  the list holds that path already, so that adding the same path twice stores it twice.
\<close>

theorem C8_AddConffile:
  "(pathname = [] \<or> \<not> IsAbs pathname \<or> Clean pathname = ''/'' \<longrightarrow>
      (\<exists>err. AddConffile t pathname = (t, Some err)))
   \<and> (IsAbs pathname \<and> Clean pathname \<noteq> ''/'' \<longrightarrow>
        AddConffile t pathname = (t\<lparr>t_conffiles := t_conffiles t @ [Clean pathname]\<rparr>, None)
        \<and> IsAbs (Clean pathname)
        \<and> AddConffile (t\<lparr>t_conffiles := t_conffiles t @ [Clean pathname]\<rparr>) pathname
            = (t\<lparr>t_conffiles := t_conffiles t @ [Clean pathname, Clean pathname]\<rparr>, None))"
proof (intro conjI impI)
  assume "pathname = [] \<or> \<not> IsAbs pathname \<or> Clean pathname = ''/''"
  moreover have "\<not> IsAbs pathname" if "pathname = []"
    using that by (simp add: IsAbs_def)
  ultimately have "\<not> IsAbs (Clean pathname) \<or> Clean pathname = ''/''"
    using Clean_IsAbs [of pathname] by blast
  then show "\<exists>err. AddConffile t pathname = (t, Some err)"
    by (auto simp: AddConffile_def Let_def)
next
  assume a: "IsAbs pathname \<and> Clean pathname \<noteq> ''/''"
  then have abs: "IsAbs (Clean pathname)" by (simp add: Clean_IsAbs)
  with a show 1: "AddConffile t pathname = (t\<lparr>t_conffiles := t_conffiles t @ [Clean pathname]\<rparr>, None)"
    by (simp add: AddConffile_def Let_def)
  from abs show "IsAbs (Clean pathname)" .
  from a abs show "AddConffile (t\<lparr>t_conffiles := t_conffiles t @ [Clean pathname]\<rparr>) pathname
            = (t\<lparr>t_conffiles := t_conffiles t @ [Clean pathname, Clean pathname]\<rparr>, None)"
    by (simp add: AddConffile_def Let_def)
qed

lemma Clean_examples:
  "Clean ''/etc/foo/../bar.conf'' = ''/etc/bar.conf''"
  "Clean ''/etc/./x/../..'' = ''/''"
  "Clean ''foo'' = ''foo''"
  by code_simp+

theorem C8_AddConffile_witness:
  "(\<exists>err. AddConffile New [] = (New, Some err))
   \<and> \<not> IsAbs ''foo'' \<and> (\<exists>err. AddConffile New ''foo'' = (New, Some err))
   \<and> Clean ''/etc/./x/../..'' = ''/'' \<and> (\<exists>err. AddConffile New ''/etc/./x/../..'' = (New, Some err))
   \<and> IsAbs ''/etc/foo/../bar.conf'' \<and> Clean ''/etc/foo/../bar.conf'' \<noteq> ''/''
   \<and> AddConffile New ''/etc/foo/../bar.conf'' = (New\<lparr>t_conffiles := [''/etc/bar.conf'']\<rparr>, None)
   \<and> AddConffile (New\<lparr>t_conffiles := [''/etc/bar.conf'']\<rparr>) ''/etc/foo/../bar.conf''
       = (New\<lparr>t_conffiles := [''/etc/bar.conf'', ''/etc/bar.conf'']\<rparr>, None)"
  using C8_AddConffile [of "[]" New] C8_AddConffile [of "''foo''" New]
    C8_AddConffile [of "''/etc/./x/../..''" New]
    C8_AddConffile [of "''/etc/foo/../bar.conf''" New]
  by (simp add: Clean_examples IsAbs_def New_def)

section \<open>The conffile list in memory\<close>

text \<open>
  A Go slice is a window into a backing array. Arrays live in a store, addressed by
  their index; \<open>make\<close> allocates a new array at the next free address.
\<close>

type_synonym store = "string list list"

record slice =
  s_ptr :: nat
  s_off :: nat
  s_len :: nat
  s_cap :: nat

definition slice_contents :: "store \<Rightarrow> slice \<Rightarrow> string list" where
  "slice_contents h s = take (s_len s) (drop (s_off s) (h ! s_ptr s))"

definition slice_valid :: "store \<Rightarrow> slice \<Rightarrow> bool" where
  "slice_valid h s \<longleftrightarrow>
     s_ptr s < length h \<and> s_len s \<le> s_cap s \<and> s_off s + s_cap s \<le> length (h ! s_ptr s)"

text \<open>The assignment \<open>s[i] = v\<close>; an index out of range panics.\<close>

definition slice_set :: "store \<Rightarrow> slice \<Rightarrow> nat \<Rightarrow> string \<Rightarrow> store option" where
  "slice_set h s i v =
     (if i < s_len s then Some (h[s_ptr s := (h ! s_ptr s)[s_off s + i := v]]) else None)"

text \<open>\<open>make([]string, n)\<close> and the built-in \<open>copy(dst, src)\<close>.\<close>

definition make_slice :: "store \<Rightarrow> nat \<Rightarrow> store \<times> slice" where
  "make_slice h n = (h @ [replicate n []], \<lparr>s_ptr = length h, s_off = 0, s_len = n, s_cap = n\<rparr>)"

definition copy_slice :: "store \<Rightarrow> slice \<Rightarrow> slice \<Rightarrow> store" where
  "copy_slice h dst src =
     (let n = min (s_len dst) (s_len src);
          elems = take n (slice_contents h src);
          arr = h ! s_ptr dst
      in h[s_ptr dst := take (s_off dst) arr @ elems @ drop (s_off dst + n) arr])"

text \<open>\<open>Conffiles\<close> on the store: \<open>conffiles\<close> is the slice held by the package.\<close>

definition Conffiles_mem :: "store \<Rightarrow> slice \<Rightarrow> store \<times> slice" where
  "Conffiles_mem h conffiles =
     (case make_slice h (s_len conffiles) of
        (h1, result) \<Rightarrow> (copy_slice h1 result conffiles, result))"

lemma Conffiles_mem_eq:
  assumes "slice_valid h s"
  shows "Conffiles_mem h s
     = (h @ [slice_contents h s], \<lparr>s_ptr = length h, s_off = 0, s_len = s_len s, s_cap = s_len s\<rparr>)"
proof -
  have l: "length (slice_contents h s) = s_len s"
    using assms by (auto simp: slice_contents_def slice_valid_def)
  have c: "slice_contents (h @ [replicate (s_len s) []]) s = slice_contents h s"
    using assms by (simp add: slice_contents_def slice_valid_def nth_append)
  show ?thesis
    using l by (simp add: Conffiles_mem_def make_slice_def copy_slice_def Let_def c)
qed

text \<open>
  C9. \<open>Conffiles\<close> returns a slice over a newly allocated array that holds the elements
  of the package's conffile list at the time of the call; the package's list is as
  before, and assigning to any element of the returned slice leaves it so.
\<close>

theorem C9_Conffiles_copy:
  assumes "slice_valid h conffiles" and "Conffiles_mem h conffiles = (h', result)"
  shows "slice_contents h' result = slice_contents h conffiles
    \<and> slice_contents h' conffiles = slice_contents h conffiles
    \<and> s_ptr result \<noteq> s_ptr conffiles
    \<and> s_len result = s_len conffiles
    \<and> (\<forall>i < s_len result. \<forall>v. \<exists>h''. slice_set h' result i v = Some h''
          \<and> slice_contents h'' conffiles = slice_contents h conffiles
          \<and> slice_contents h'' result = (slice_contents h conffiles)[i := v])
    \<and> Conffiles \<lparr>t_fields = fs, t_conffiles = slice_contents h conffiles, t_scripts = ss, t_files = fl\<rparr>
        = slice_contents h' result"
proof -
  from assms(2) Conffiles_mem_eq [OF assms(1)]
  have h': "h' = h @ [slice_contents h conffiles]"
    and r: "result = \<lparr>s_ptr = length h, s_off = 0, s_len = s_len conffiles, s_cap = s_len conffiles\<rparr>"
    by simp_all
  have l: "length (slice_contents h conffiles) = s_len conffiles"
    using assms(1) by (auto simp: slice_contents_def slice_valid_def)
  have p: "s_ptr conffiles < length h" using assms(1) by (simp add: slice_valid_def)
  have 1: "slice_contents h' result = slice_contents h conffiles"
    using l by (simp add: h' r slice_contents_def)
  have 2: "slice_contents h' conffiles = slice_contents h conffiles"
    using p by (simp add: h' slice_contents_def nth_append)
  have 3: "\<exists>h''. slice_set h' result i v = Some h''
          \<and> slice_contents h'' conffiles = slice_contents h conffiles
          \<and> slice_contents h'' result = (slice_contents h conffiles)[i := v]"
    if "i < s_len result" for i v
    using that p l by (simp add: slice_set_def h' r slice_contents_def nth_append list_update_append)
  show ?thesis
    using 1 2 3 p by (simp add: r Conffiles_def)
qed

theorem C9_Conffiles_copy_witness:
  "slice_valid [[''/etc/a'', ''/etc/b'', '''']] \<lparr>s_ptr = 0, s_off = 0, s_len = 2, s_cap = 3\<rparr>
   \<and> Conffiles_mem [[''/etc/a'', ''/etc/b'', '''']] \<lparr>s_ptr = 0, s_off = 0, s_len = 2, s_cap = 3\<rparr>
       = ([[''/etc/a'', ''/etc/b'', ''''], [''/etc/a'', ''/etc/b'']],
          \<lparr>s_ptr = 1, s_off = 0, s_len = 2, s_cap = 2\<rparr>)
   \<and> slice_set [[''/etc/a'', ''/etc/b'', ''''], [''/etc/a'', ''/etc/b'']]
        \<lparr>s_ptr = 1, s_off = 0, s_len = 2, s_cap = 2\<rparr> 1 ''x''
       = Some [[''/etc/a'', ''/etc/b'', ''''], [''/etc/a'', ''x'']]
   \<and> slice_contents [[''/etc/a'', ''/etc/b'', ''''], [''/etc/a'', ''x'']]
        \<lparr>s_ptr = 0, s_off = 0, s_len = 2, s_cap = 3\<rparr> = [''/etc/a'', ''/etc/b'']"
proof -
  have v: "slice_valid [[''/etc/a'', ''/etc/b'', '''']] \<lparr>s_ptr = 0, s_off = 0, s_len = 2, s_cap = 3\<rparr>"
    by (simp add: slice_valid_def)
  have c: "Conffiles_mem [[''/etc/a'', ''/etc/b'', '''']] \<lparr>s_ptr = 0, s_off = 0, s_len = 2, s_cap = 3\<rparr>
       = ([[''/etc/a'', ''/etc/b'', ''''], [''/etc/a'', ''/etc/b'']],
          \<lparr>s_ptr = 1, s_off = 0, s_len = 2, s_cap = 2\<rparr>)"
    by (simp add: Conffiles_mem_def make_slice_def copy_slice_def slice_contents_def Let_def
        numeral_2_eq_2)
  from C9_Conffiles_copy [OF v c] v c show ?thesis
    by (simp add: slice_set_def slice_contents_def)
qed

section \<open>Adding files\<close>





















section \<open>Packages for the examples\<close>








section \<open>Reading (read.go, control.go, data.go)\<close>

text \<open>
  \<open>tar.Reader\<close>: the entries of a tar archive, in order. An empty input ends at once;
  anything else that is not a tar archive fails at the first header.
\<close>

fun tar_entries :: "stream \<Rightarrow> error + (Header \<times> stream) list" where
  "tar_entries (Tar es) = Inr es"
| "tar_entries (Bytes b) = (if b = [] then Inr [] else Inl (Error ''archive/tar: invalid tar header''))"
| "tar_entries (Gzip l s) = Inl (Error ''archive/tar: invalid tar header'')"

text \<open>
  \<open>bufio.Scanner\<close> with \<open>ScanLines\<close>: the tokens up to the end of the input, or up to a
  line that does not fit the buffer of \<open>MaxScanTokenSize\<close> bytes.
\<close>

definition MaxScanTokenSize :: nat where
  "MaxScanTokenSize = 65536"

definition dropCR :: "string \<Rightarrow> string" where
  "dropCR line = (if line \<noteq> [] \<and> last line = CHR 0x0D then butlast line else line)"

function scan_tokens :: "string \<Rightarrow> string list \<times> error option" where
  "scan_tokens b =
     (if b = [] then ([], None)
      else
        (let line = takeWhile (\<lambda>c. c \<noteq> CHR 0x0A) b
         in if length line \<ge> MaxScanTokenSize
            then ([], Some (Error ''bufio.Scanner: token too long''))
            else (case scan_tokens (drop (length line + 1) b) of
                    (tokens, err) \<Rightarrow> (dropCR line # tokens, err))))"
  by pat_completeness auto
termination
  by (relation "measure length") auto

declare scan_tokens.simps [simp del]

definition readControlLine :: "T \<Rightarrow> string \<Rightarrow> error + T" where
  "readControlLine t line =
     (if CHR '':'' \<notin> set line then Inr t
      else
        (let key = takeWhile (\<lambda>c. c \<noteq> CHR '':'') line;
             val = drop (length key + 1) line
         in case AddField t key val of
              (t', Some err) \<Rightarrow> Inl (Error ''Unable to add field'')
            | (t', None) \<Rightarrow> Inr t'))"

fun readControl_lines :: "T \<Rightarrow> string list \<Rightarrow> error + T" where
  "readControl_lines t [] = Inr t"
| "readControl_lines t (line # rest) =
     (case readControlLine t line of
        Inl err \<Rightarrow> Inl (Error ''Error reading line of control file'')
      | Inr t' \<Rightarrow> readControl_lines t' rest)"

definition readControl :: "env \<Rightarrow> T \<Rightarrow> stream \<Rightarrow> error + T" where
  "readControl e t r =
     (case scan_tokens (bytes_of e r) of
        (tokens, scan_err) \<Rightarrow>
          (case readControl_lines t tokens of
             Inl err \<Rightarrow> Inl err
           | Inr t' \<Rightarrow>
               (case scan_err of
                  Some err \<Rightarrow> Inl (Error ''Error reading control file'')
                | None \<Rightarrow> Inr t')))"

definition readConffile :: "T \<Rightarrow> string \<Rightarrow> error + T" where
  "readConffile t line =
     (if line = [] then Inr t
      else (case AddConffile t line of
              (t', Some err) \<Rightarrow> Inl err
            | (t', None) \<Rightarrow> Inr t'))"

fun readConffiles_lines :: "T \<Rightarrow> string list \<Rightarrow> error + T" where
  "readConffiles_lines t [] = Inr t"
| "readConffiles_lines t (line # rest) =
     (case readConffile t line of
        Inl err \<Rightarrow> Inl (Error ''Error reading line of conffiles'')
      | Inr t' \<Rightarrow> readConffiles_lines t' rest)"

definition readConffiles :: "env \<Rightarrow> T \<Rightarrow> stream \<Rightarrow> error + T" where
  "readConffiles e t r =
     (case scan_tokens (bytes_of e r) of
        (tokens, scan_err) \<Rightarrow>
          (case readConffiles_lines t tokens of
             Inl err \<Rightarrow> Inl err
           | Inr t' \<Rightarrow>
               (case scan_err of
                  Some err \<Rightarrow> Inl (Error ''Error reading conffiles'')
                | None \<Rightarrow> Inr (t'\<lparr>t_conffiles := sort (t_conffiles t')\<rparr>))))"

text \<open>The loop of \<open>readControlArchive\<close> over the entries of the control archive.\<close>

fun readControlArchive_loop ::
  "env \<Rightarrow> T \<Rightarrow> bool \<Rightarrow> bool \<Rightarrow> (Header \<times> stream) list \<Rightarrow> error + T" where
  "readControlArchive_loop e t controlRead conffilesRead [] =
     (if \<not> controlRead then Inl (Error ''No control file found'') else Inr t)"
| "readControlArchive_loop e t controlRead conffilesRead ((hdr, tr) # rest) =
     (if Typeflag hdr \<noteq> TypeReg \<and> Typeflag hdr \<noteq> TypeRegA
      then readControlArchive_loop e t controlRead conffilesRead rest
      else
        (let name = Clean (unslash (Name hdr))
         in if name = controlName then
              (if controlRead then Inl (Error ''Control file has already been read'')
               else (case readControl e t tr of
                       Inl err \<Rightarrow> Inl (Error ''Error reading control file'')
                     | Inr t' \<Rightarrow> readControlArchive_loop e t' True conffilesRead rest))
            else if name = confName then
              (if conffilesRead then Inl (Error ''Conffiles have already been read'')
               else (case readConffiles e t tr of
                       Inl err \<Rightarrow> Inl (Error ''Error reading conffiles'')
                     | Inr t' \<Rightarrow> readControlArchive_loop e t' controlRead True rest))
            else
              (case AddScript e t name (Some (Reader tr)) of
                 (t', Some err) \<Rightarrow>
                   if err = ErrBadScriptName
                   then readControlArchive_loop e t' controlRead conffilesRead rest
                   else Inl (Error ''Error reading script'')
               | (t', None) \<Rightarrow> readControlArchive_loop e t' controlRead conffilesRead rest)))"

definition readControlArchive :: "env \<Rightarrow> T \<Rightarrow> stream \<Rightarrow> error + T" where
  "readControlArchive e t r =
     (case gunzip r of
        None \<Rightarrow> Inl (Error ''Unable to read compressed control archive'')
      | Some gzr \<Rightarrow>
          (case tar_entries gzr of
             Inl err \<Rightarrow> Inl (Error ''Unable to read control tar header'')
           | Inr es \<Rightarrow> readControlArchive_loop e t False False es))"

definition setFileData :: "T \<Rightarrow> string \<Rightarrow> Header \<Rightarrow> stream \<Rightarrow> T" where
  "setFileData t name hdr r =
     (let d = (if Typeflag hdr = TypeReg \<or> Typeflag hdr = TypeRegA
               then Some (Gzip BestCompression r) else None)
      in t\<lparr>t_files := (t_files t)(name \<mapsto> \<lparr>header = hdr, data = d\<rparr>)\<rparr>)"

fun readDataArchive_loop :: "T \<Rightarrow> (Header \<times> stream) list \<Rightarrow> error + T" where
  "readDataArchive_loop t [] = Inr t"
| "readDataArchive_loop t ((hdr, tr) # rest) =
     (let name = Clean (unslash (Name hdr))
      in if name = ''.'' \<or> name = ''..'' \<or> HasPrefix name ''../''
         then readDataArchive_loop t rest
         else if t_files t name \<noteq> None then Inl (Error ''Duplicate file data'')
         else readDataArchive_loop (setFileData t (''/'' @ name) hdr tr) rest)"

definition readDataArchive :: "T \<Rightarrow> stream \<Rightarrow> error + T" where
  "readDataArchive t r =
     (case gunzip r of
        None \<Rightarrow> Inl (Error ''Unable to read compressed data archive'')
      | Some gzr \<Rightarrow>
          (case tar_entries gzr of
             Inl err \<Rightarrow> Inl (Error ''Unable to read data tar header'')
           | Inr es \<Rightarrow> readDataArchive_loop t es))"

text \<open>The loop of \<open>readTar\<close> over the entries of the outer archive.\<close>

fun readTar_loop :: "env \<Rightarrow> T \<Rightarrow> bool \<Rightarrow> bool \<Rightarrow> (Header \<times> stream) list \<Rightarrow> error + T" where
  "readTar_loop e result dataRead controlRead [] =
     (if \<not> controlRead then Inl (Error ''No control archive found in package'') else Inr result)"
| "readTar_loop e result dataRead controlRead ((hdr, r) # rest) =
     (if Typeflag hdr \<noteq> TypeReg \<and> Typeflag hdr \<noteq> TypeRegA
      then readTar_loop e result dataRead controlRead rest
      else if unslash (Name hdr) = controlArchiveName then
        (if controlRead then Inl (Error ''Control archive has already been read'')
         else (case readControlArchive e result r of
                 Inl err \<Rightarrow> Inl (Error ''Error reading control archive'')
               | Inr result' \<Rightarrow> readTar_loop e result' dataRead True rest))
      else if unslash (Name hdr) = dataArchiveName then
        (if dataRead then Inl (Error ''Data archive has already been read'')
         else (case readDataArchive result r of
                 Inl err \<Rightarrow> Inl (Error ''Error reading data archive'')
               | Inr result' \<Rightarrow> readTar_loop e result' True controlRead rest))
      else readTar_loop e result dataRead controlRead rest)"

definition readTar :: "env \<Rightarrow> stream \<Rightarrow> error + T" where
  "readTar e r =
     (case tar_entries r of
        Inl err \<Rightarrow> Inl (Error ''Error reading TAR header'')
      | Inr es \<Rightarrow> readTar_loop e New False False es)"

definition Read :: "env \<Rightarrow> stream option \<Rightarrow> Format \<Rightarrow> error + T" where
  "Read e r format =
     (case r of
        None \<Rightarrow> Inl (Error ''Nil reader supplied'')
      | Some s \<Rightarrow>
          if format AND NOT formatGZip \<noteq> FormatTar then Inl (Error ''Unsupported format'')
          else if format AND formatGZip \<noteq> 0 then
            (case gunzip s of
               None \<Rightarrow> Inl (Error ''Error opening gzip stream'')
             | Some gzr \<Rightarrow> readTar e gzr)
          else readTar e s)"

definition ReadDetectFormat :: "env \<Rightarrow> stream option \<Rightarrow> error + T" where
  "ReadDetectFormat e r =
     (case r of
        None \<Rightarrow> Inl (Error ''Nil reader/seeker supplied'')
      | Some s \<Rightarrow>
          (case gunzip s of
             None \<Rightarrow> Read e (Some s) FormatTar
           | Some gzr \<Rightarrow> Read e (Some gzr) FormatTar))"

section \<open>The outer container\<close>

definition is_regular :: "Header \<Rightarrow> bool" where
  "is_regular hdr \<longleftrightarrow> Typeflag hdr = TypeReg \<or> Typeflag hdr = TypeRegA"

text \<open>The entries that \<open>readTar\<close> hands to the control and to the data subsystem.\<close>

definition is_control_entry :: "Header \<times> stream \<Rightarrow> bool" where
  "is_control_entry en \<longleftrightarrow> is_regular (fst en) \<and> unslash (Name (fst en)) = controlArchiveName"

definition is_data_entry :: "Header \<times> stream \<Rightarrow> bool" where
  "is_data_entry en \<longleftrightarrow> is_regular (fst en) \<and> unslash (Name (fst en)) = dataArchiveName"

lemma archive_names_differ: "controlArchiveName \<noteq> dataArchiveName"
  by (simp add: controlArchiveName_def dataArchiveName_def)

lemma readTar_loop_no_control:
  "filter is_control_entry es = [] \<Longrightarrow> \<exists>err. readTar_loop e t d False es = Inl err"
proof (induction es arbitrary: t d)
  case Nil
  then show ?case by simp
next
  case (Cons en es)
  obtain hdr r where en: "en = (hdr, r)" by (cases en)
  from Cons.prems have rest: "filter is_control_entry es = []"
    and nc: "\<not> is_control_entry (hdr, r)"
    by (auto simp: en split: if_splits)
  from Cons.IH [OF rest] nc show ?case
    by (auto simp: en is_control_entry_def is_regular_def split: sum.splits)
qed

lemma readTar_loop_second_control:
  "filter is_control_entry es \<noteq> [] \<Longrightarrow> \<exists>err. readTar_loop e t d True es = Inl err"
proof (induction es arbitrary: t d)
  case Nil
  then show ?case by simp
next
  case (Cons en es)
  obtain hdr r where en: "en = (hdr, r)" by (cases en)
  show ?case
  proof (cases "is_control_entry (hdr, r)")
    case True
    then show ?thesis by (auto simp: en is_control_entry_def is_regular_def)
  next
    case False
    with Cons.prems have "filter is_control_entry es \<noteq> []" by (simp add: en)
    from Cons.IH [OF this] False show ?thesis
      by (auto simp: en is_control_entry_def is_regular_def split: sum.splits)
  qed
qed

lemma readTar_loop_second_data:
  "filter is_data_entry es \<noteq> [] \<Longrightarrow> \<exists>err. readTar_loop e t True c es = Inl err"
proof (induction es arbitrary: t c)
  case Nil
  then show ?case by simp
next
  case (Cons en es)
  obtain hdr r where en: "en = (hdr, r)" by (cases en)
  show ?case
  proof (cases "is_data_entry (hdr, r)")
    case True
    then show ?thesis
      using archive_names_differ
      by (auto simp: en is_data_entry_def is_regular_def split: sum.splits)
  next
    case False
    with Cons.prems have "filter is_data_entry es \<noteq> []" by (simp add: en)
    from Cons.IH [OF this] False show ?thesis
      by (auto simp: en is_data_entry_def is_regular_def split: sum.splits)
  qed
qed

lemma readTar_loop_two_controls:
  "2 \<le> length (filter is_control_entry es) \<Longrightarrow> \<exists>err. readTar_loop e t d c es = Inl err"
proof (induction es arbitrary: t d c)
  case Nil
  then show ?case by simp
next
  case (Cons en es)
  obtain hdr r where en: "en = (hdr, r)" by (cases en)
  show ?case
  proof (cases "is_control_entry (hdr, r)")
    case True
    with Cons.prems have "filter is_control_entry es \<noteq> []" by (auto simp: en)
    from readTar_loop_second_control [OF this] True show ?thesis
      by (auto simp: en is_control_entry_def is_regular_def split: sum.splits)
  next
    case False
    with Cons.prems have "2 \<le> length (filter is_control_entry es)" by (simp add: en)
    from Cons.IH [OF this] False show ?thesis
      by (auto simp: en is_control_entry_def is_regular_def split: sum.splits)
  qed
qed

lemma readTar_loop_two_datas:
  "2 \<le> length (filter is_data_entry es) \<Longrightarrow> \<exists>err. readTar_loop e t d c es = Inl err"
proof (induction es arbitrary: t d c)
  case Nil
  then show ?case by simp
next
  case (Cons en es)
  obtain hdr r where en: "en = (hdr, r)" by (cases en)
  show ?case
  proof (cases "is_data_entry (hdr, r)")
    case True
    with Cons.prems have "filter is_data_entry es \<noteq> []" by (auto simp: en)
    from readTar_loop_second_data [OF this] True show ?thesis
      using archive_names_differ
      by (auto simp: en is_data_entry_def is_regular_def split: sum.splits)
  next
    case False
    with Cons.prems have "2 \<le> length (filter is_data_entry es)" by (simp add: en)
    from Cons.IH [OF this] False show ?thesis
      by (auto simp: en is_data_entry_def is_regular_def split: sum.splits)
  qed
qed

text \<open>Without a data entry the loop is the reading of its control entries alone.\<close>

lemma readTar_loop_no_data:
  assumes "filter is_data_entry es = []" "filter is_control_entry es = [cen]"
    "readControlArchive e t (snd cen) = Inr t'"
  shows "readTar_loop e t d False es = Inr t'"
  using assms
proof (induction es arbitrary: d)
  case Nil
  then show ?case by simp
next
  case (Cons en es)
  obtain hdr r where en: "en = (hdr, r)" by (cases en)
  from Cons.prems(1) have nd: "\<not> is_data_entry (hdr, r)" and restd: "filter is_data_entry es = []"
    by (auto simp: en split: if_splits)
  show ?case
  proof (cases "is_control_entry (hdr, r)")
    case True
    with Cons.prems(2) have cen: "cen = (hdr, r)" and none: "filter is_control_entry es = []"
      by (auto simp: en)
    have fin: "readTar_loop e t' d True es = Inr t'" if "filter is_control_entry es = []"
      "filter is_data_entry es = []" for es d
      using that
    proof (induction es)
      case Nil
      then show ?case by simp
    next
      case (Cons x xs)
      then show ?case
        by (cases x) (auto simp: is_control_entry_def is_data_entry_def is_regular_def split: if_splits)
    qed
    from True Cons.prems(3) fin [OF none restd] show ?thesis
      by (auto simp: en cen is_control_entry_def is_regular_def)
  next
    case False
    with Cons.prems(2) have "filter is_control_entry es = [cen]" by (simp add: en)
    from Cons.IH [OF restd this Cons.prems(3)] False nd show ?thesis
      by (auto simp: en is_control_entry_def is_data_entry_def is_regular_def)
  qed
qed

lemma AddField_files: "t_files (fst (AddField t name content)) = t_files t"
  by (simp add: AddField_def Let_def)

lemma AddConffile_files: "t_files (fst (AddConffile t pathname)) = t_files t"
  by (simp add: AddConffile_def Let_def)

lemma AddScript_files: "t_files (fst (AddScript e t name r)) = t_files t"
  by (simp add: AddScript_def split: option.splits reader.splits)

lemma readControlLine_files: "readControlLine t line = Inr t' \<Longrightarrow> t_files t' = t_files t"
  by (auto simp: readControlLine_def Let_def split: if_splits prod.splits option.splits)
    (metis AddField_files fst_conv)

lemma readControl_lines_files: "readControl_lines t ls = Inr t' \<Longrightarrow> t_files t' = t_files t"
  by (induction ls arbitrary: t) (auto split: sum.splits dest: readControlLine_files)

lemma readControl_files: "readControl e t r = Inr t' \<Longrightarrow> t_files t' = t_files t"
  by (auto simp: readControl_def split: prod.splits sum.splits option.splits
      dest: readControl_lines_files)

lemma readConffile_files: "readConffile t line = Inr t' \<Longrightarrow> t_files t' = t_files t"
  by (auto simp: readConffile_def split: if_splits prod.splits option.splits)
    (metis AddConffile_files fst_conv)

lemma readConffiles_lines_files: "readConffiles_lines t ls = Inr t' \<Longrightarrow> t_files t' = t_files t"
  by (induction ls arbitrary: t) (auto split: sum.splits dest: readConffile_files)

lemma readConffiles_files: "readConffiles e t r = Inr t' \<Longrightarrow> t_files t' = t_files t"
  by (auto simp: readConffiles_def split: prod.splits sum.splits option.splits
      dest: readConffiles_lines_files)

lemma readControlArchive_loop_files:
  "readControlArchive_loop e t c f es = Inr t' \<Longrightarrow> t_files t' = t_files t"
proof (induction es arbitrary: t c f)
  case Nil
  then show ?case by (simp split: if_splits)
next
  case (Cons en es)
  obtain hdr r where en: "en = (hdr, r)" by (cases en)
  let ?name = "Clean (unslash (Name hdr))"
  show ?case
  proof (cases "Typeflag hdr \<noteq> TypeReg \<and> Typeflag hdr \<noteq> TypeRegA")
    case True
    with Cons show ?thesis by (simp add: en)
  next
    case reg: False
    show ?thesis
    proof (cases "?name = controlName")
      case True
      with reg Cons.prems obtain t1 where "readControl e t r = Inr t1"
        "readControlArchive_loop e t1 True f es = Inr t'"
        by (auto simp: en Let_def split: if_splits sum.splits)
      with Cons.IH [of t1 True f] readControl_files [of e t r t1] show ?thesis by simp
    next
      case nc: False
      show ?thesis
      proof (cases "?name = confName")
        case True
        with reg nc Cons.prems obtain t1 where "readConffiles e t r = Inr t1"
          "readControlArchive_loop e t1 c True es = Inr t'"
          by (auto simp: en Let_def split: if_splits sum.splits)
        with Cons.IH [of t1 c True] readConffiles_files [of e t r t1] show ?thesis by simp
      next
        case False
        obtain t1 err where a: "AddScript e t ?name (Some (Reader r)) = (t1, err)"
          by (cases "AddScript e t ?name (Some (Reader r))")
        with reg nc False Cons.prems have "readControlArchive_loop e t1 c f es = Inr t'"
          by (auto simp: en Let_def split: if_splits option.splits)
        with Cons.IH [of t1 c f] AddScript_files [of e t ?name "Some (Reader r)"] a
        show ?thesis by simp
      qed
    qed
  qed
qed

lemma readControlArchive_files: "readControlArchive e t r = Inr t' \<Longrightarrow> t_files t' = t_files t"
  by (auto simp: readControlArchive_def split: option.splits sum.splits
      dest: readControlArchive_loop_files)

lemma readTar_loop_files:
  "filter is_data_entry es = [] \<Longrightarrow> readTar_loop e t d c es = Inr t' \<Longrightarrow> t_files t' = t_files t"
proof (induction es arbitrary: t d c)
  case Nil
  then show ?case by (simp split: if_splits)
next
  case (Cons en es)
  obtain hdr r where en: "en = (hdr, r)" by (cases en)
  from Cons.prems(1) have nd: "\<not> is_data_entry (hdr, r)" and rest: "filter is_data_entry es = []"
    by (auto simp: en split: if_splits)
  show ?case
  proof (cases "is_control_entry (hdr, r)")
    case True
    with Cons.prems(2) obtain t1 where "readControlArchive e t r = Inr t1"
      "readTar_loop e t1 d True es = Inr t'"
      by (auto simp: en is_control_entry_def is_regular_def split: if_splits sum.splits)
    with Cons.IH [OF rest, of t1 d True] readControlArchive_files [of e t r t1]
    show ?thesis by simp
  next
    case False
    with nd Cons.prems(2) have "readTar_loop e t d c es = Inr t'"
      by (auto simp: en is_control_entry_def is_data_entry_def is_regular_def split: if_splits)
    with Cons.IH [OF rest] show ?thesis by simp
  qed
qed

text \<open>
  C6. Reading the outer container fails when no regular entry carries the name of the
  control sub-archive. Without an entry for the data sub-archive, reading gives what
  the control sub-archive gives, with an empty file tree. Two entries named as the
  control sub-archive, or two named as the data sub-archive, make reading fail.
\<close>

theorem C6_readTar:
  "(filter is_control_entry es = [] \<longrightarrow> (\<exists>err. readTar e (Tar es) = Inl err))
   \<and> (filter is_data_entry es = [] \<longrightarrow>
        (\<forall>t. readTar e (Tar es) = Inr t \<longrightarrow> t_files t = Map.empty)
        \<and> (\<forall>cen t. filter is_control_entry es = [cen] \<and> readControlArchive e New (snd cen) = Inr t
              \<longrightarrow> readTar e (Tar es) = Inr t))
   \<and> (2 \<le> length (filter is_control_entry es) \<or> 2 \<le> length (filter is_data_entry es) \<longrightarrow>
        (\<exists>err. readTar e (Tar es) = Inl err))"
proof (intro conjI impI allI)
  assume "filter is_control_entry es = []"
  from readTar_loop_no_control [OF this] show "\<exists>err. readTar e (Tar es) = Inl err"
    by (simp add: readTar_def)
next
  fix t assume "filter is_data_entry es = []" "readTar e (Tar es) = Inr t"
  from readTar_loop_files [OF this(1), of e New False False t] this(2)
  show "t_files t = Map.empty" by (simp add: readTar_def New_def)
next
  fix cen t
  assume "filter is_data_entry es = []"
    "filter is_control_entry es = [cen] \<and> readControlArchive e New (snd cen) = Inr t"
  then show "readTar e (Tar es) = Inr t"
    by (simp add: readTar_def readTar_loop_no_data)
next
  assume "2 \<le> length (filter is_control_entry es) \<or> 2 \<le> length (filter is_data_entry es)"
  then show "\<exists>err. readTar e (Tar es) = Inl err"
    using readTar_loop_two_controls [of es e New False False]
      readTar_loop_two_datas [of es e New False False]
    by (auto simp: readTar_def)
qed

section \<open>Archives for the examples\<close>

definition small_control :: "Header \<times> stream" where
  "small_control =
     (fileHeader ''./control.tar.gz'' 0 0,
      Gzip BestCompression
        (Tar [(directoryHeader ''./'' 0, Bytes []),
              (fileHeader ''./control'' 0 0, Bytes [])]))"

definition small_data :: "Header \<times> stream" where
  "small_data =
     (fileHeader ''./data.tar.gz'' 0 0,
      Gzip BestCompression (Tar [(directoryHeader ''./'' 0, Bytes [])]))"

lemma small_entries:
  "is_control_entry small_control" "\<not> is_data_entry small_control"
  "is_data_entry small_data" "\<not> is_control_entry small_data"
  "\<not> is_control_entry (debian_binary_entry 0)" "\<not> is_data_entry (debian_binary_entry 0)"
  by code_simp+

lemma name_control: "Clean (unslash ''./control'') = controlName"
  by code_simp

lemma small_control_read:
  "readControlArchive example_env New (snd small_control) = Inr New"
  by (simp add: small_control_def readControlArchive_def name_control readControl_def
      scan_tokens.simps bytes_of_def Typeflag_defs)

theorem C6_readTar_witness:
  "filter is_control_entry [debian_binary_entry 0, small_data] = []
   \<and> (\<exists>err. readTar example_env (Tar [debian_binary_entry 0, small_data]) = Inl err)
   \<and> filter is_data_entry [debian_binary_entry 0, small_control] = []
   \<and> filter is_control_entry [debian_binary_entry 0, small_control] = [small_control]
   \<and> (\<exists>t. readTar example_env (Tar [debian_binary_entry 0, small_control]) = Inr t
          \<and> t_files t = Map.empty)
   \<and> 2 \<le> length (filter is_data_entry [small_control, small_data, small_data])
   \<and> (\<exists>err. readTar example_env (Tar [small_control, small_data, small_data]) = Inl err)"
proof -
  note t = small_control_read
  have f: "filter is_control_entry [debian_binary_entry 0, small_data] = []"
    "filter is_data_entry [debian_binary_entry 0, small_control] = []"
    "filter is_control_entry [debian_binary_entry 0, small_control] = [small_control]"
    "2 \<le> length (filter is_data_entry [small_control, small_data, small_data])"
    by (simp_all add: small_entries)
  from C6_readTar [of "[debian_binary_entry 0, small_data]" example_env]
    C6_readTar [of "[debian_binary_entry 0, small_control]" example_env]
    C6_readTar [of "[small_control, small_data, small_data]" example_env]
    f t
  show ?thesis by (metis snd_conv)
qed

section \<open>Duplicate paths in the data archive\<close>

lemma unslash_not_abs: "\<not> IsAbs (Clean (unslash p))"
proof -
  have "\<not> IsAbs (unslash p)"
    using unslash_no_prefix [of p]
    by (cases "unslash p") (auto simp: IsAbs_def HasPrefix_def)
  then show ?thesis by (simp add: Clean_IsAbs)
qed

text \<open>
  The names that \<open>readDataArchive\<close> looks up are never absolute, and the names it
  stores under always are: on a package whose keys are absolute, as on the empty one,
  the loop never finds a duplicate and never fails.
\<close>

lemma readDataArchive_loop_never_fails:
  "\<forall>k \<in> dom (t_files t). IsAbs k \<Longrightarrow> \<exists>t'. readDataArchive_loop t es = Inr t'"
proof (induction es arbitrary: t)
  case Nil
  then show ?case by simp
next
  case (Cons en es)
  obtain hdr r where en: "en = (hdr, r)" by (cases en)
  let ?name = "Clean (unslash (Name hdr))"
  have "?name \<notin> dom (t_files t)"
    using Cons.prems unslash_not_abs [of "Name hdr"] by blast
  then have none: "t_files t ?name = None" by (simp add: dom_def)
  have "\<forall>k \<in> dom (t_files (setFileData t (''/'' @ ?name) hdr r)). IsAbs k"
    using Cons.prems by (auto simp: setFileData_def Let_def IsAbs_def)
  from Cons.IH [OF this] Cons.IH [OF Cons.prems] none show ?case
    by (simp add: en Let_def)
qed

definition duplicate_archive :: stream where
  "duplicate_archive =
     Gzip BestCompression
       (Tar [(directoryHeader ''./'' 0, Bytes []),
             (fileHeader ''./a'' 1 0, Bytes ''1''),
             (fileHeader ''./a'' 1 0, Bytes ''2'')])"

lemma name_a: "Clean (unslash ''./a'') = ''a''" "Clean (unslash ''./'') = ''.''"
  by code_simp+

text \<open>
  C2 at a data sub-archive with two regular entries \<open>./a\<close>: both canonicalize to the
  tree path \<open>/a\<close>, the read succeeds, and the tree holds the second entry.
\<close>

theorem C2_duplicate_path_stored:
  "readDataArchive New duplicate_archive
     = Inr (New\<lparr>t_files := [''/a'' \<mapsto>
              \<lparr>header = fileHeader ''./a'' 1 0, data = Some (Gzip BestCompression (Bytes ''2''))\<rparr>]\<rparr>)"
  by (simp add: readDataArchive_def duplicate_archive_def name_a Let_def setFileData_def New_def
      HasPrefix_def Typeflag_defs)

end
